theory Spec2Isabelle
  imports Main "HOL-Library.Sublist"
begin

unbundle bit_operations_syntax

section \<open>Python values used by pipeline.py\<close>

text \<open>
  Exceptions of the Python code are values. \<open>OSError\<close> carries the errno of the failed
  system call (\<open>IOError\<close> likewise, raised by \<^verbatim>\<open>open\<close>), \<open>KeyError\<close> the missing key, \<open>Exception\<close> the message of a
  \<^verbatim>\<open>raise Exception(...)\<close>.
\<close>

datatype errno = ENOENT | EEXIST | ENOTDIR | EISDIR | ENOTEMPTY | EINVAL | EBUSY | EBADF

datatype error =
    KeyError string
  | AssertionError
  | IndexError
  | OSError errno
  | IOError errno
  | ValueError
  | AttributeError string
  | NameError string
  | Exception string

text \<open>The item is a dictionary from field names to strings.\<close>

type_synonym item = "string \<rightharpoonup> string"

text \<open>\<^verbatim>\<open>sub in s\<close> on Python strings: \<open>sub\<close> occurs in \<open>s\<close> as a contiguous substring.\<close>

fun py_in :: "string \<Rightarrow> string \<Rightarrow> bool" where
  "py_in sub [] = (sub = [])"
| "py_in sub (c # cs) = (prefix sub (c # cs) \<or> py_in sub cs)"

text \<open>\<^verbatim>\<open>s.split(sep)\<close> for a one-character separator: never returns the empty list.\<close>

fun py_split :: "char \<Rightarrow> string \<Rightarrow> string list" where
  "py_split sep [] = [[]]"
| "py_split sep (c # cs) =
     (let r = py_split sep cs in if c = sep then [] # r else (c # hd r) # tl r)"

text \<open>\<^verbatim>\<open>xs[-1]\<close>: the last element, IndexError on the empty list.\<close>

definition py_last :: "'a list \<Rightarrow> error + 'a" where
  "py_last xs = (if xs = [] then Inl IndexError else Inr (last xs))"

text \<open>\<^verbatim>\<open>sep.join(xs)\<close>.\<close>

fun py_join :: "string \<Rightarrow> string list \<Rightarrow> string" where
  "py_join sep [] = []"
| "py_join sep [x] = x"
| "py_join sep (x # y # ys) = x @ sep @ py_join sep (y # ys)"

subsection \<open>The clock and \<^verbatim>\<open>time.strftime\<close>\<close>

record struct_time =
  tm_year :: nat
  tm_mon :: nat
  tm_mday :: nat
  tm_hour :: nat
  tm_min :: nat
  tm_sec :: nat

definition digit :: "nat \<Rightarrow> char" where
  "digit n = char_of (48 + n mod 10)"

definition digits2 :: "nat \<Rightarrow> string" where
  "digits2 n = [digit (n div 10), digit n]"

definition digits4 :: "nat \<Rightarrow> string" where
  "digits4 n = [digit (n div 1000), digit (n div 100), digit (n div 10), digit n]"

text \<open>
  \<^verbatim>\<open>time.strftime("%Y%m%d-%H%M%S")\<close> at the local time \<open>t\<close>: the year in four
  digits (the years 1000 to 9999, which cover every clock the worker runs on), the other
  fields zero-padded to two digits.
\<close>

definition strftime_Ymd_HMS :: "struct_time \<Rightarrow> string" where
  "strftime_Ymd_HMS t =
     digits4 (tm_year t) @ digits2 (tm_mon t) @ digits2 (tm_mday t) @ ''-'' @
     digits2 (tm_hour t) @ digits2 (tm_min t) @ digits2 (tm_sec t)"

section \<open>PrepareDirectories: validation and naming\<close>

text \<open>
  The four assertions of \<^verbatim>\<open>PrepareDirectories.process\<close>, in the order of the source:
  \<^verbatim>\<open>'-' in item_name\<close>, \<^verbatim>\<open>'.' in item_name\<close>, \<^verbatim>\<open>'/' in item_name\<close>,
  \<^verbatim>\<open>'http://' in item_name\<close>.
\<close>

definition asserts_pass :: "string \<Rightarrow> bool" where
  "asserts_pass item_name \<longleftrightarrow>
     py_in ''-'' item_name \<and> py_in ''.'' item_name \<and> py_in ''/'' item_name \<and>
     py_in ''http://'' item_name"

text \<open>\<^verbatim>\<open>file_id = item_name.split('/')[-1]\<close>\<close>

definition file_id_of :: "string \<Rightarrow> error + string" where
  "file_id_of item_name = py_last (py_split CHR ''/'' item_name)"

text \<open>\<^verbatim>\<open>dirname = "/".join((item["data_dir"], file_id))\<close>\<close>

definition dirname_of :: "string \<Rightarrow> string \<Rightarrow> string" where
  "dirname_of data_dir file_id = py_join ''/'' [data_dir, file_id]"

text \<open>\<^verbatim>\<open>"%s-%s-%s" % (self.file_prefix, time.strftime("%Y%m%d-%H%M%S"), file_id)\<close>\<close>

definition file_base_of :: "string \<Rightarrow> struct_time \<Rightarrow> string \<Rightarrow> string" where
  "file_base_of file_prefix now file_id =
     file_prefix @ ''-'' @ strftime_Ymd_HMS now @ ''-'' @ file_id"

text \<open>
  A statement either returns or raises; the state it leaves behind is returned beside it
  in both cases, since an exception does not undo the effects that came before it.
\<close>

datatype 'a exec = Return 'a | Raise error

text \<open>\<^verbatim>\<open>"%(k1)s/%(k2)s" % item\<close>: both keys are looked up, left to right.\<close>

definition interp2 :: "item \<Rightarrow> string \<Rightarrow> string \<Rightarrow> error + string" where
  "interp2 item k1 k2 =
     (case item k1 of
        None \<Rightarrow> Inl (KeyError k1)
      | Some a \<Rightarrow>
          (case item k2 of
             None \<Rightarrow> Inl (KeyError k2)
           | Some b \<Rightarrow> Inr (a @ ''/'' @ b)))"

section \<open>The file system\<close>

text \<open>
  The file system the process sees: a tree of directories and regular files, as a finite
  table from paths to nodes (read with \<open>map_of\<close>: the first entry of a path counts). A
  path is a list of names. An absolute path starts with the component \<open>/\<close>; a relative
  one is relative to the working directory of the process, the path \<open>[]\<close>, and starts
  with one \<open>..\<close> for every step above it. Permissions, symbolic links, full disks and
  other processes are outside the model, and no absolute path leads into the working
  directory of the process or above it.
\<close>

datatype node = Dir | File string

type_synonym path = "string list"

type_synonym filesystem = "(path \<times> node) list"

definition fs_filter :: "(path \<Rightarrow> bool) \<Rightarrow> filesystem \<Rightarrow> filesystem" where
  "fs_filter P fs = filter (\<lambda>(k, n). P k) fs"

definition fs_put :: "path \<Rightarrow> node \<Rightarrow> filesystem \<Rightarrow> filesystem" where
  "fs_put p n fs = (p, n) # fs_filter (\<lambda>k. k \<noteq> p) fs"

text \<open>
  One step of the kernel's path walk from the directory \<open>stk\<close>: an empty component
  (between two slashes) and \<open>.\<close> stay, \<open>..\<close> goes to the parent, a name goes to the
  entry of that name.
\<close>

definition step_component :: "path \<Rightarrow> string \<Rightarrow> path" where
  "step_component stk c =
     (if c = [] \<or> c = ''.'' then stk
      else if c = ''..'' then
        (if stk = [''/''] then stk
         else if stk = [] \<or> last stk = ''..'' then stk @ [c]
         else butlast stk)
      else stk @ [c])"

text \<open>Where the walk of a path string starts: at the root or at the working directory.\<close>

definition start_dir :: "string \<Rightarrow> path" where
  "start_dir s = (if s \<noteq> [] \<and> hd s = CHR ''/'' then [''/''] else [])"

text \<open>
  The path a string names when its walk succeeds (\<open>walk\<close> below makes the steps of
  \<open>resolve\<close> and checks the directories on the way).
\<close>

definition resolve :: "string \<Rightarrow> path" where
  "resolve s = foldl step_component (start_dir s) (py_split CHR ''/'' s)"

text \<open>
  The directories that always exist and cannot be removed or created: the working
  directory, its ancestors and the root.
\<close>

definition fixed_dir :: "path \<Rightarrow> bool" where
  "fixed_dir p \<longleftrightarrow> list_all (\<lambda>c. c = ''..'') p \<or> p = [''/'']"

definition lookup :: "filesystem \<Rightarrow> path \<Rightarrow> node option" where
  "lookup fs p = (if fixed_dir p then Some Dir else map_of fs p)"

text \<open>
  No path has two entries, and every entry lies in a directory and is not one of the
  fixed directories.
\<close>

definition wf_fs :: "filesystem \<Rightarrow> bool" where
  "wf_fs fs \<longleftrightarrow>
     distinct (map fst fs) \<and>
     list_all (\<lambda>(p, n). \<not> fixed_dir p \<and> lookup fs (butlast p) = Some Dir) fs"

text \<open>
  The kernel's walk along the components of a path string, from the directory \<open>cur\<close>:
  before a component is taken, \<open>cur\<close> must be a directory, ENOENT when nothing is there
  and ENOTDIR when a regular file is. Empty components are skipped. What the last
  component leads to is not looked at: it may be missing.
\<close>

fun walk :: "filesystem \<Rightarrow> path \<Rightarrow> string list \<Rightarrow> errno + path" where
  "walk fs cur [] = Inr cur"
| "walk fs cur (c # cs) =
     (if c = [] then walk fs cur cs
      else case lookup fs cur of
        None \<Rightarrow> Inl ENOENT
      | Some (File x) \<Rightarrow> Inl ENOTDIR
      | Some Dir \<Rightarrow> walk fs (step_component cur c) cs)"

text \<open>The walk of a whole path string; the empty string is ENOENT.\<close>

definition namei :: "filesystem \<Rightarrow> string \<Rightarrow> errno + path" where
  "namei fs s =
     (if s = [] then Inl ENOENT else walk fs (start_dir s) (py_split CHR ''/'' s))"

text \<open>
  The last component of a path string that is not empty, as the kernel keeps it for
  \<^verbatim>\<open>rmdir\<close>, \<^verbatim>\<open>mkdir\<close> and \<^verbatim>\<open>rename\<close>; the empty string when there is none
  (the root). A plain name is one that is neither empty nor \<open>.\<close> nor \<open>..\<close>.
\<close>

definition last_component :: "string \<Rightarrow> string" where
  "last_component s =
     (let cs = filter (\<lambda>c. c \<noteq> []) (py_split CHR ''/'' s) in if cs = [] then [] else last cs)"

definition plain_name :: "string \<Rightarrow> bool" where
  "plain_name c \<longleftrightarrow> c \<noteq> [] \<and> c \<noteq> ''.'' \<and> c \<noteq> ''..''"

text \<open>
  \<^verbatim>\<open>os.stat(s)\<close>: the error of the walk, ENOENT for a missing entry, ENOTDIR for a
  regular file named with a trailing slash.
\<close>

definition stat :: "filesystem \<Rightarrow> string \<Rightarrow> errno + node" where
  "stat fs s =
     (case namei fs s of
        Inl e \<Rightarrow> Inl e
      | Inr p \<Rightarrow>
          (case lookup fs p of
             None \<Rightarrow> Inl ENOENT
           | Some (File c) \<Rightarrow> if last s = CHR ''/'' then Inl ENOTDIR else Inr (File c)
           | Some Dir \<Rightarrow> Inr Dir))"

text \<open>\<^verbatim>\<open>os.path.isdir(s)\<close> and \<^verbatim>\<open>os.path.exists(s)\<close> never raise.\<close>

definition os_path_isdir :: "filesystem \<Rightarrow> string \<Rightarrow> bool" where
  "os_path_isdir fs s \<longleftrightarrow> stat fs s = Inr Dir"

definition os_path_exists :: "filesystem \<Rightarrow> string \<Rightarrow> bool" where
  "os_path_exists fs s = (case stat fs s of Inl e \<Rightarrow> False | Inr n \<Rightarrow> True)"

text \<open>
  The entries that lie inside the directory \<open>p\<close>, at any depth. Inside the working
  directory and its ancestors lie the relative paths that do not climb higher.
\<close>

definition inside :: "path \<Rightarrow> path \<Rightarrow> bool" where
  "inside p q =
     (if list_all (\<lambda>c. c = ''..'') p then
        \<not> prefix [''/''] q \<and> length (takeWhile (\<lambda>c. c = ''..'') q) \<le> length p
      else strict_prefix p q)"

text \<open>
  \<^verbatim>\<open>shutil.rmtree(s)\<close> of Python 2.7 with the default \<^verbatim>\<open>ignore_errors=False\<close>:
  \<^verbatim>\<open>os.listdir(s)\<close> raises when \<open>s\<close> is not a directory; then everything inside the
  directory is removed; then \<^verbatim>\<open>os.rmdir(s)\<close> removes the directory itself, which the
  kernel refuses with EINVAL when the last component of \<open>s\<close> is \<open>.\<close>, with ENOTEMPTY
  when it is \<open>..\<close> and with EBUSY for the root. The contents are gone in each case.
\<close>

definition shutil_rmtree :: "filesystem \<Rightarrow> string \<Rightarrow> unit exec \<times> filesystem" where
  "shutil_rmtree fs s =
     (case stat fs s of
        Inl e \<Rightarrow> (Raise (OSError e), fs)
      | Inr (File c) \<Rightarrow> (Raise (OSError ENOTDIR), fs)
      | Inr Dir \<Rightarrow>
          (let p = resolve s in
           if last_component s = ''.'' then
             (Raise (OSError EINVAL), fs_filter (\<lambda>q. \<not> inside p q) fs)
           else if last_component s = ''..'' then
             (Raise (OSError ENOTEMPTY), fs_filter (\<lambda>q. \<not> inside p q) fs)
           else if fixed_dir p then
             (Raise (OSError EBUSY), fs_filter (\<lambda>q. \<not> inside p q) fs)
           else (Return (), fs_filter (\<lambda>q. \<not> prefix p q) fs)))"

text \<open>
  Making the directory at a path: EEXIST when something is there; the directory it lies
  in must exist.
\<close>

definition mkdir :: "filesystem \<Rightarrow> path \<Rightarrow> unit exec \<times> filesystem" where
  "mkdir fs p =
     (if lookup fs p \<noteq> None then (Raise (OSError EEXIST), fs)
      else case lookup fs (butlast p) of
        None \<Rightarrow> (Raise (OSError ENOENT), fs)
      | Some (File c) \<Rightarrow> (Raise (OSError ENOTDIR), fs)
      | Some Dir \<Rightarrow> (Return (), fs_put p Dir fs))"

text \<open>\<^verbatim>\<open>os.mkdir(s)\<close>: the walk, then the directory is made where it ends.\<close>

definition os_mkdir :: "filesystem \<Rightarrow> string \<Rightarrow> unit exec \<times> filesystem" where
  "os_mkdir fs s =
     (case namei fs s of
        Inl e \<Rightarrow> (Raise (OSError e), fs)
      | Inr p \<Rightarrow> mkdir fs p)"

text \<open>
  \<^verbatim>\<open>posixpath.split(p)\<close>: \<open>tail\<close> is what follows the last slash, \<open>head\<close> what
  comes before it, without its trailing slashes unless it consists of slashes only.
\<close>

definition path_split :: "string \<Rightarrow> string \<times> string" where
  "path_split p =
     (let tail = last (py_split CHR ''/'' p);
          head = take (length p - length tail) p
      in (if head \<noteq> [] \<and> \<not> list_all (\<lambda>c. c = CHR ''/'') head
            then rev (dropWhile (\<lambda>c. c = CHR ''/'') (rev head))
          else head,
          tail))"

text \<open>
  The first lines of \<^verbatim>\<open>os.makedirs\<close>:
  \<^verbatim>\<open>head, tail = path.split(name)\<close> and, when \<open>tail\<close> is empty,
  \<^verbatim>\<open>head, tail = path.split(head)\<close>.
\<close>

definition makedirs_split :: "string \<Rightarrow> string \<times> string" where
  "makedirs_split name =
     (if snd (path_split name) = [] then path_split (fst (path_split name))
      else path_split name)"

text \<open>
  \<^verbatim>\<open>os.makedirs(name)\<close> of Python 2.7: when \<open>head\<close> and \<open>tail\<close> are not empty and
  \<open>head\<close> does not exist, \<open>head\<close> is made first, recursively, an EEXIST from that call
  being swallowed, and the call returns at once when \<open>tail\<close> is \<open>.\<close>; then the leaf is
  made with \<^verbatim>\<open>os.mkdir(name)\<close>, which raises EEXIST when the leaf exists.
\<close>

function os_makedirs :: "filesystem \<Rightarrow> string \<Rightarrow> unit exec \<times> filesystem" where
  "os_makedirs fs name =
     (if fst (makedirs_split name) \<noteq> [] \<and> snd (makedirs_split name) \<noteq> [] \<and>
         \<not> os_path_exists fs (fst (makedirs_split name)) then
        (case os_makedirs fs (fst (makedirs_split name)) of
           (Raise e, fs') \<Rightarrow>
             if e \<noteq> OSError EEXIST then (Raise e, fs')
             else if snd (makedirs_split name) = ''.'' then (Return (), fs')
             else os_mkdir fs' name
         | (Return u, fs') \<Rightarrow>
             if snd (makedirs_split name) = ''.'' then (Return (), fs')
             else os_mkdir fs' name)
      else os_mkdir fs name)"
  by pat_completeness auto
termination
proof (relation "measure (\<lambda>(fs, name). length name)")
  show "wf (measure (\<lambda>(fs :: filesystem, name :: string). length name))"
    by simp
next
  fix fs :: filesystem and name :: string
  assume a: "fst (makedirs_split name) \<noteq> [] \<and> snd (makedirs_split name) \<noteq> [] \<and>
         \<not> os_path_exists fs (fst (makedirs_split name))"
  have le: "length (fst (path_split p)) \<le> length p" for p
  proof -
    have "length (dropWhile (\<lambda>c. c = CHR ''/'') (rev (take k p))) \<le> length p" for k
      using length_dropWhile_le [of "\<lambda>c. c = CHR ''/''" "rev (take k p)"] by simp
    then show ?thesis by (simp add: path_split_def Let_def)
  qed
  have less: "length (fst (path_split p)) < length p" if "snd (path_split p) \<noteq> []" for p
  proof -
    define t where "t = last (py_split CHR ''/'' p)"
    have t: "t \<noteq> []" using that by (simp add: path_split_def Let_def t_def)
    have p: "p \<noteq> []" using t by (auto simp: t_def)
    then have k: "length p - length t < length p" using t by simp
    have "length (dropWhile (\<lambda>c. c = CHR ''/'') (rev (take (length p - length t) p))) <
        length p"
      using length_dropWhile_le [of "\<lambda>c. c = CHR ''/''" "rev (take (length p - length t) p)"] k
      by simp
    then show ?thesis using k by (simp add: path_split_def Let_def t_def [symmetric])
  qed
  have "length (fst (makedirs_split name)) < length name"
  proof (cases "snd (path_split name) = []")
    case True
    then have "snd (path_split (fst (path_split name))) \<noteq> []"
      using a by (simp add: makedirs_split_def)
    from less [OF this] le [of name] show ?thesis
      using True by (simp add: makedirs_split_def)
  next
    case False
    from less [OF this] show ?thesis using False by (simp add: makedirs_split_def)
  qed
  then show "((fs, fst (makedirs_split name)), (fs, name)) \<in>
      measure (\<lambda>(fs, name). length name)"
    by simp
qed

declare os_makedirs.simps [simp del]

text \<open>
  \<^verbatim>\<open>open(s, "w").close()\<close>: after the walk, a path named with a trailing slash or
  leading to a directory is EISDIR; otherwise the file is created, or truncated to zero
  bytes.
\<close>

definition open_w_close :: "filesystem \<Rightarrow> string \<Rightarrow> unit exec \<times> filesystem" where
  "open_w_close fs s =
     (case namei fs s of
        Inl e \<Rightarrow> (Raise (IOError e), fs)
      | Inr p \<Rightarrow>
          if last s = CHR ''/'' then (Raise (IOError EISDIR), fs)
          else
            (case lookup fs p of
               Some Dir \<Rightarrow> (Raise (IOError EISDIR), fs)
             | Some (File c) \<Rightarrow> (Return (), fs_put p (File []) fs)
             | None \<Rightarrow>
                 (case lookup fs (butlast p) of
                    None \<Rightarrow> (Raise (IOError ENOENT), fs)
                  | Some (File c) \<Rightarrow> (Raise (IOError ENOTDIR), fs)
                  | Some Dir \<Rightarrow> (Return (), fs_put p (File []) fs))))"

text \<open>
  \<^verbatim>\<open>os.rename(src, dst)\<close>, in the order of the kernel's checks: the walks of both
  path strings; EBUSY unless both end in a plain name; the source must exist; a regular
  file cannot be named with a trailing slash; renaming a path to itself does nothing; a
  file replaces a file, a directory replaces only an empty directory and cannot move
  below itself. A directory moves with everything below it.
\<close>

definition os_rename :: "filesystem \<Rightarrow> string \<Rightarrow> string \<Rightarrow> unit exec \<times> filesystem" where
  "os_rename fs src dst =
     (case namei fs src of
        Inl e \<Rightarrow> (Raise (OSError e), fs)
      | Inr p \<Rightarrow>
          (case namei fs dst of
             Inl e \<Rightarrow> (Raise (OSError e), fs)
           | Inr q \<Rightarrow>
               if \<not> plain_name (last_component src) \<or> \<not> plain_name (last_component dst)
                 then (Raise (OSError EBUSY), fs)
               else
                 (case lookup fs p of
                    None \<Rightarrow> (Raise (OSError ENOENT), fs)
                  | Some (File c) \<Rightarrow>
                      (if last src = CHR ''/'' \<or> last dst = CHR ''/''
                         then (Raise (OSError ENOTDIR), fs)
                       else if p = q then (Return (), fs)
                       else if lookup fs q = Some Dir then (Raise (OSError EISDIR), fs)
                       else (Return (), fs_put q (File c) (fs_filter (\<lambda>r. r \<noteq> p) fs)))
                  | Some Dir \<Rightarrow>
                      (if p = q then (Return (), fs)
                       else if lookup fs q \<noteq> None \<and> lookup fs q \<noteq> Some Dir
                         then (Raise (OSError ENOTDIR), fs)
                       else if strict_prefix p q then (Raise (OSError EINVAL), fs)
                       else if list_ex (\<lambda>(r, m). strict_prefix q r) fs
                         then (Raise (OSError ENOTEMPTY), fs)
                       else (Return (),
                         map (\<lambda>(r, m). if prefix p r then (q @ drop (length p) r, m)
                                        else (r, m))
                           (fs_filter (\<lambda>r. \<not> prefix q r) fs))))))"

section \<open>PrepareDirectories and MoveFiles\<close>

text \<open>
  Lines 123 to 126 of \<^verbatim>\<open>PrepareDirectories.process\<close>:
  \<^verbatim>\<open>if os.path.isdir(dirname): shutil.rmtree(dirname)\<close> and then
  \<^verbatim>\<open>os.makedirs(dirname)\<close>.
\<close>

definition prepare_workdir :: "filesystem \<Rightarrow> string \<Rightarrow> unit exec \<times> filesystem" where
  "prepare_workdir fs dirname =
     (if os_path_isdir fs dirname then
        (case shutil_rmtree fs dirname of
           (Raise e, fs') \<Rightarrow> (Raise e, fs')
         | (Return u, fs') \<Rightarrow> os_makedirs fs' dirname)
      else os_makedirs fs dirname)"

text \<open>
  \<^verbatim>\<open>PrepareDirectories(file_prefix).process(item)\<close>, run at local time \<open>now\<close> on the
  file system \<open>fs\<close>. The item is changed only after the directory has been made.
\<close>

definition PrepareDirectories_process ::
  "string \<Rightarrow> struct_time \<Rightarrow> item \<Rightarrow> filesystem \<Rightarrow> unit exec \<times> item \<times> filesystem" where
  "PrepareDirectories_process file_prefix now item fs =
     (case item ''item_name'' of
        None \<Rightarrow> (Raise (KeyError ''item_name''), item, fs)
      | Some item_name \<Rightarrow>
          if \<not> py_in ''-'' item_name then (Raise AssertionError, item, fs)
          else if \<not> py_in ''.'' item_name then (Raise AssertionError, item, fs)
          else if \<not> py_in ''/'' item_name then (Raise AssertionError, item, fs)
          else if \<not> py_in ''http://'' item_name then (Raise AssertionError, item, fs)
          else
            (case file_id_of item_name of
               Inl e \<Rightarrow> (Raise e, item, fs)
             | Inr file_id \<Rightarrow>
                 (case item ''data_dir'' of
                    None \<Rightarrow> (Raise (KeyError ''data_dir''), item, fs)
                  | Some data_dir \<Rightarrow>
                      (let dirname = dirname_of data_dir file_id in
                       case prepare_workdir fs dirname of
                         (Raise e, fs1) \<Rightarrow> (Raise e, item, fs1)
                       | (Return u, fs1) \<Rightarrow>
                           (let item1 = item(''item_dir'' \<mapsto> dirname);
                                item2 = item1(''file_id'' \<mapsto> file_id);
                                item3 = item2(''file_base'' \<mapsto>
                                          file_base_of file_prefix now file_id)
                            in case interp2 item3 ''item_dir'' ''file_base'' of
                                 Inl e \<Rightarrow> (Raise e, item3, fs1)
                               | Inr placeholder \<Rightarrow>
                                   (case open_w_close fs1 placeholder of
                                      (r, fs2) \<Rightarrow> (r, item3, fs2)))))))"

text \<open>
  \<^verbatim>\<open>MoveFiles.process(item)\<close>: both path strings are built before
  \<^verbatim>\<open>os.rename\<close> is called; the directory is removed only when the rename returned.
\<close>

definition MoveFiles_process :: "item \<Rightarrow> filesystem \<Rightarrow> unit exec \<times> filesystem" where
  "MoveFiles_process item fs =
     (case interp2 item ''item_dir'' ''file_base'' of
        Inl e \<Rightarrow> (Raise e, fs)
      | Inr src \<Rightarrow>
          (case interp2 item ''data_dir'' ''file_base'' of
             Inl e \<Rightarrow> (Raise e, fs)
           | Inr dst \<Rightarrow>
               (case os_rename fs src dst of
                  (Raise e, fs1) \<Rightarrow> (Raise e, fs1)
                | (Return u, fs1) \<Rightarrow>
                    (case item ''item_dir'' of
                       None \<Rightarrow> (Raise (KeyError ''item_dir''), fs1)
                     | Some d \<Rightarrow> shutil_rmtree fs1 d))))"


section \<open>AsyncPopenFixed\<close>

text \<open>
  The object \<^verbatim>\<open>self\<close> of \<^verbatim>\<open>AsyncPopenFixed.run\<close>. An attribute that has not been
  assigned is \<open>None\<close>; reading it raises AttributeError. \<^verbatim>\<open>pipe.stdin\<close> is itself
  \<^verbatim>\<open>None\<close> unless the process was started with a pipe for its input, hence the
  nested option of \<open>stdin\<close>.
\<close>

datatype kwval = FileObject nat | BoolVal bool

record popen =
  pid :: nat
  popen_stdin :: "nat option"

record periodic_callback =
  callback :: string
  callback_time :: nat
  running :: bool

record async_popen =
  args :: "string list"
  kwargs :: "string \<rightharpoonup> kwval"
  ioloop :: "unit option"
  master_fd :: "nat option"
  master :: "nat option"
  pipe :: "popen option"
  stdin :: "nat option option"
  wait_callback :: "periodic_callback option"

text \<open>
  The state \<^verbatim>\<open>run\<close> works on: the object, the handlers registered with the IOLoop
  (descriptor, method, events), the status flags of the open file descriptors, and the
  local variables of \<^verbatim>\<open>run\<close>.
\<close>

record run_frame =
  self :: async_popen
  loop_handlers :: "(nat \<times> string \<times> nat) list"
  fd_flags :: "nat \<rightharpoonup> int"
  local_master_fd :: "nat option"
  local_slave_fd :: "nat option"
  local_slave :: "nat option"

definition O_NONBLOCK :: int where
  "O_NONBLOCK = 2048"

definition O_RDWR :: int where
  "O_RDWR = 2"

definition IOLoop_READ :: nat where
  "IOLoop_READ = 1"

text \<open>\<^verbatim>\<open>self.ioloop = IOLoop.instance()\<close>\<close>

definition stmt_ioloop :: "run_frame \<Rightarrow> error + run_frame" where
  "stmt_ioloop st = Inr (st\<lparr>self := (self st)\<lparr>ioloop := Some ()\<rparr>\<rparr>)"

text \<open>
  \<^verbatim>\<open>(master_fd, slave_fd) = pty.openpty()\<close>: the operating system answers with an
  error or with two fresh descriptors, open for reading and writing.
\<close>

definition stmt_openpty :: "error + nat \<times> nat \<Rightarrow> run_frame \<Rightarrow> error + run_frame" where
  "stmt_openpty openpty st =
     (case openpty of
        Inl e \<Rightarrow> Inl e
      | Inr (m, s) \<Rightarrow>
          Inr (st\<lparr>fd_flags := (fd_flags st)(m \<mapsto> O_RDWR, s \<mapsto> O_RDWR),
                 local_master_fd := Some m, local_slave_fd := Some s\<rparr>))"

text \<open>
  \<^verbatim>\<open>fcntl.fcntl(master_fd, F_SETFL, fcntl.fcntl(master_fd, F_GETFL) | os.O_NONBLOCK)\<close>
\<close>

definition stmt_nonblock :: "run_frame \<Rightarrow> error + run_frame" where
  "stmt_nonblock st =
     (case local_master_fd st of
        None \<Rightarrow> Inl (NameError ''master_fd'')
      | Some m \<Rightarrow>
          (case fd_flags st m of
             None \<Rightarrow> Inl (IOError EBADF)
           | Some fl \<Rightarrow> Inr (st\<lparr>fd_flags := (fd_flags st)(m \<mapsto> fl OR O_NONBLOCK)\<rparr>)))"

text \<open>\<^verbatim>\<open>self.master_fd = master_fd\<close>\<close>

definition stmt_master_fd :: "run_frame \<Rightarrow> error + run_frame" where
  "stmt_master_fd st =
     (case local_master_fd st of
        None \<Rightarrow> Inl (NameError ''master_fd'')
      | Some m \<Rightarrow> Inr (st\<lparr>self := (self st)\<lparr>master_fd := Some m\<rparr>\<rparr>))"

text \<open>\<^verbatim>\<open>self.master = os.fdopen(master_fd)\<close>\<close>

definition stmt_master :: "run_frame \<Rightarrow> error + run_frame" where
  "stmt_master st =
     (case local_master_fd st of
        None \<Rightarrow> Inl (NameError ''master_fd'')
      | Some m \<Rightarrow>
          if fd_flags st m = None then Inl (OSError EBADF)
          else Inr (st\<lparr>self := (self st)\<lparr>master := Some m\<rparr>\<rparr>))"

text \<open>
  \<^verbatim>\<open>self.ioloop.add_handler(master_fd, self._handle_subprocess_stdout, self.ioloop.READ)\<close>
\<close>

definition stmt_add_handler :: "run_frame \<Rightarrow> error + run_frame" where
  "stmt_add_handler st =
     (case ioloop (self st) of
        None \<Rightarrow> Inl (AttributeError ''ioloop'')
      | Some l \<Rightarrow>
          (case local_master_fd st of
             None \<Rightarrow> Inl (NameError ''master_fd'')
           | Some m \<Rightarrow>
               Inr (st\<lparr>loop_handlers :=
                     loop_handlers st @ [(m, ''_handle_subprocess_stdout'', IOLoop_READ)]\<rparr>)))"

text \<open>\<^verbatim>\<open>slave = os.fdopen(slave_fd)\<close>\<close>

definition stmt_slave :: "run_frame \<Rightarrow> error + run_frame" where
  "stmt_slave st =
     (case local_slave_fd st of
        None \<Rightarrow> Inl (NameError ''slave_fd'')
      | Some s \<Rightarrow>
          if fd_flags st s = None then Inl (OSError EBADF)
          else Inr (st\<lparr>local_slave := Some s\<rparr>))"

text \<open>
  \<^verbatim>\<open>self.kwargs["stdout"] = slave\<close>, \<^verbatim>\<open>self.kwargs["stderr"] = slave\<close>,
  \<^verbatim>\<open>self.kwargs["close_fds"] = True\<close>
\<close>

definition stmt_kwargs :: "run_frame \<Rightarrow> error + run_frame" where
  "stmt_kwargs st =
     (case local_slave st of
        None \<Rightarrow> Inl (NameError ''slave'')
      | Some s \<Rightarrow>
          Inr (st\<lparr>self := (self st)\<lparr>kwargs :=
                 (kwargs (self st))(''stdout'' \<mapsto> FileObject s, ''stderr'' \<mapsto> FileObject s,
                    ''close_fds'' \<mapsto> BoolVal True)\<rparr>\<rparr>))"

text \<open>
  \<^verbatim>\<open>self.pipe = subprocess.Popen(*self.args, **self.kwargs)\<close>: the operating system
  answers with an error (the executable is missing, say) or with the new process.
\<close>

definition stmt_pipe ::
  "(string list \<Rightarrow> (string \<rightharpoonup> kwval) \<Rightarrow> error + popen) \<Rightarrow> run_frame \<Rightarrow> error + run_frame" where
  "stmt_pipe Popen st =
     (case Popen (args (self st)) (kwargs (self st)) of
        Inl e \<Rightarrow> Inl e
      | Inr p \<Rightarrow> Inr (st\<lparr>self := (self st)\<lparr>pipe := Some p\<rparr>\<rparr>))"

text \<open>\<^verbatim>\<open>self.stdin = self.pipe.stdin\<close>\<close>

definition stmt_stdin :: "run_frame \<Rightarrow> error + run_frame" where
  "stmt_stdin st =
     (case pipe (self st) of
        None \<Rightarrow> Inl (AttributeError ''pipe'')
      | Some p \<Rightarrow> Inr (st\<lparr>self := (self st)\<lparr>stdin := Some (popen_stdin p)\<rparr>\<rparr>))"

text \<open>\<^verbatim>\<open>self.wait_callback = PeriodicCallback(self._wait_for_end, 250)\<close>\<close>

definition stmt_wait_callback :: "run_frame \<Rightarrow> error + run_frame" where
  "stmt_wait_callback st =
     Inr (st\<lparr>self := (self st)\<lparr>wait_callback :=
            Some \<lparr>callback = ''_wait_for_end'', callback_time = 250, running = False\<rparr>\<rparr>\<rparr>)"

text \<open>\<^verbatim>\<open>self.wait_callback.start()\<close>\<close>

definition stmt_start :: "run_frame \<Rightarrow> error + run_frame" where
  "stmt_start st =
     (case wait_callback (self st) of
        None \<Rightarrow> Inl (AttributeError ''wait_callback'')
      | Some c \<Rightarrow> Inr (st\<lparr>self := (self st)\<lparr>wait_callback := Some (c\<lparr>running := True\<rparr>)\<rparr>\<rparr>))"

text \<open>The statements of \<^verbatim>\<open>run\<close>, in the order of the source.\<close>

definition run_stmts ::
  "error + nat \<times> nat \<Rightarrow> (string list \<Rightarrow> (string \<rightharpoonup> kwval) \<Rightarrow> error + popen) \<Rightarrow>
   (run_frame \<Rightarrow> error + run_frame) list" where
  "run_stmts openpty Popen =
     [stmt_ioloop, stmt_openpty openpty, stmt_nonblock, stmt_master_fd, stmt_master,
      stmt_add_handler, stmt_slave, stmt_kwargs, stmt_pipe Popen, stmt_stdin,
      stmt_wait_callback, stmt_start]"

text \<open>
  Running statements one after the other: the result, and the states the program passes
  through, the first being the state it starts in. An exception ends both.
\<close>

fun exec_stmts :: "('s \<Rightarrow> error + 's) list \<Rightarrow> 's \<Rightarrow> error + 's" where
  "exec_stmts [] st = Inr st"
| "exec_stmts (f # fs) st = (case f st of Inl e \<Rightarrow> Inl e | Inr st' \<Rightarrow> exec_stmts fs st')"

fun exec_trace :: "('s \<Rightarrow> error + 's) list \<Rightarrow> 's \<Rightarrow> 's list" where
  "exec_trace [] st = [st]"
| "exec_trace (f # fs) st = st # (case f st of Inl e \<Rightarrow> [] | Inr st' \<Rightarrow> exec_trace fs st')"

definition AsyncPopenFixed_run ::
  "error + nat \<times> nat \<Rightarrow> (string list \<Rightarrow> (string \<rightharpoonup> kwval) \<Rightarrow> error + popen) \<Rightarrow>
   run_frame \<Rightarrow> error + run_frame" where
  "AsyncPopenFixed_run openpty Popen st = exec_stmts (run_stmts openpty Popen) st"

text \<open>
  The periodic completion check is under way once \<^verbatim>\<open>start\<close> has been called on it.
  What the class's docstring says of the check \<^verbatim>\<open>_wait_for_end\<close>: it reads
  \<^verbatim>\<open>self.pipe\<close>, and fails with AttributeError when the attribute is missing.
\<close>

definition callback_started :: "async_popen \<Rightarrow> bool" where
  "callback_started a = (case wait_callback a of None \<Rightarrow> False | Some c \<Rightarrow> running c)"

definition wait_for_end_pipe :: "async_popen \<Rightarrow> error + popen" where
  "wait_for_end_pipe a =
     (case pipe a of None \<Rightarrow> Inl (AttributeError ''pipe'') | Some p \<Rightarrow> Inr p)"

section \<open>The words of the specification\<close>

text \<open>
  The substring of the name after the last \<open>/\<close>, as the specification words the
  derivation of the file id.
\<close>

definition after_last_slash :: "string \<Rightarrow> string" where
  "after_last_slash s = rev (takeWhile (\<lambda>c. c \<noteq> CHR ''/'') (rev s))"

text \<open>
  The structural markers the specification asks of an item name: a scheme separator
  \<open>://\<close>, a separator \<open>/\<close> between host and path after it, and a filename component,
  that is a non-empty last path segment.
\<close>

fun after_scheme_sep :: "string \<Rightarrow> string option" where
  "after_scheme_sep [] = None"
| "after_scheme_sep (c # cs) =
     (if prefix ''://'' (c # cs) then Some (drop 3 (c # cs)) else after_scheme_sep cs)"

definition spec_structural_url :: "string \<Rightarrow> bool" where
  "spec_structural_url s \<longleftrightarrow>
     (case after_scheme_sep s of None \<Rightarrow> False | Some rest \<Rightarrow> CHR ''/'' \<in> set rest) \<and>
     after_last_slash s \<noteq> []"

section \<open>Example inputs\<close>

text \<open>The local time 2013-10-11 12:00:00 and the item of the naming example.\<close>

definition example_time :: struct_time where
  "example_time =
     \<lparr>tm_year = 2013, tm_mon = 10, tm_mday = 11, tm_hour = 12, tm_min = 0, tm_sec = 0\<rparr>"

definition example_item :: item where
  "example_item =
     [''item_name'' \<mapsto> ''http://blip.tv/example-show/ep-1.flv'', ''data_dir'' \<mapsto> ''data'']"

text \<open>
  File systems of the examples: a stale working directory left by an earlier attempt, the
  state after a download that produced the artifact, and the state after one that did
  not.
\<close>

definition stale_fs :: filesystem where
  "stale_fs =
     [([''data''], Dir), ([''data'', ''ep-1.flv''], Dir),
      ([''data'', ''ep-1.flv'', ''stale''], File ''old'')]"

definition downloaded_fs :: filesystem where
  "downloaded_fs =
     [([''data'', ''ep-1.flv'', ''bliptv-20131011-120000-ep-1.flv''], File ''video''),
      ([''data'', ''ep-1.flv'', ''wget.log''], File ''log''),
      ([''data'', ''ep-1.flv''], Dir), ([''data''], Dir)]"

definition failed_fs :: filesystem where
  "failed_fs = [([''data'', ''ep-1.flv'', ''wget.log''], File ''log''),
      ([''data'', ''ep-1.flv''], Dir), ([''data''], Dir)]"

text \<open>
  Item names that pass the four assertions and end in \<open>/.\<close> or in \<open>/\<close>; a data
  directory given with a \<open>..\<close> through a directory that does not exist yet; and a
  file system in which the directory \<open>a\<close> holds an old file.
\<close>

definition dot_item :: item where
  "dot_item = [''item_name'' \<mapsto> ''http://blip.tv/a-b/.'', ''data_dir'' \<mapsto> ''data'']"



definition slash_item :: item where
  "slash_item = [''item_name'' \<mapsto> ''http://blip.tv/a-b.c/'', ''data_dir'' \<mapsto> ''data'']"

text \<open>
  The statements of \<^verbatim>\<open>run\<close> up to the one that starts the process; a freshly
  made object on which \<^verbatim>\<open>run\<close> has not been called; and an operating system that
  starts every process.
\<close>

definition run_before_pipe :: "error + nat \<times> nat \<Rightarrow> (run_frame \<Rightarrow> error + run_frame) list" where
  "run_before_pipe openpty =
     [stmt_ioloop, stmt_openpty openpty, stmt_nonblock, stmt_master_fd, stmt_master,
      stmt_add_handler, stmt_slave, stmt_kwargs]"

definition fresh_frame :: run_frame where
  "fresh_frame =
     \<lparr>self = \<lparr>args = [''./wget-lua'', ''http://blip.tv/example-show/ep-1.flv''],
               kwargs = Map.empty, ioloop = None, master_fd = None, master = None,
               pipe = None, stdin = None, wait_callback = None\<rparr>,
      loop_handlers = [], fd_flags = Map.empty,
      local_master_fd = None, local_slave_fd = None, local_slave = None\<rparr>"

definition example_Popen :: "string list \<Rightarrow> (string \<rightharpoonup> kwval) \<Rightarrow> error + popen" where
  "example_Popen a k = Inr \<lparr>pid = 4711, popen_stdin = None\<rparr>"

section \<open>Loading the module, its pipeline and the stage engine\<close>

text \<open>
  The version check at the top of pipeline.py compares two
  \<^verbatim>\<open>distutils.version.StrictVersion\<close> objects of the Python standard library: a
  version is two or three numbers separated by dots, a missing third number counting as
  0, with an optional pre-release tag \<open>a\<close> or \<open>b\<close> and its number.
\<close>

record strict_version =
  version :: "nat \<times> nat \<times> nat"
  prerelease :: "(char \<times> nat) option"

definition is_digit :: "char \<Rightarrow> bool" where
  "is_digit c \<longleftrightarrow> (48::nat) \<le> of_char c \<and> of_char c \<le> (57::nat)"

definition int_of_digits :: "string \<Rightarrow> nat" where
  "int_of_digits ds = foldl (\<lambda>n c. 10 * n + (of_char c - 48)) 0 ds"

definition span_digits :: "string \<Rightarrow> string \<times> string" where
  "span_digits s = (takeWhile is_digit s, dropWhile is_digit s)"

text \<open>
  Parsing follows the pattern of \<^verbatim>\<open>StrictVersion\<close>,
  \<^verbatim>\<open>^(\d+) \. (\d+) (\. (\d+))? ([ab](\d+))?$\<close>, whose \<^verbatim>\<open>$\<close> also matches before a
  final newline; a string that does not match raises ValueError.
\<close>

definition parse_prerelease :: "nat \<times> nat \<times> nat \<Rightarrow> string \<Rightarrow> error + strict_version" where
  "parse_prerelease ver r =
     (if r = [] \<or> r = [CHR 0x0A] then Inr \<lparr>version = ver, prerelease = None\<rparr>
      else if hd r = CHR ''a'' \<or> hd r = CHR ''b'' then
        (case span_digits (tl r) of
           (d, r') \<Rightarrow>
             if d = [] then Inl ValueError
             else if r' = [] \<or> r' = [CHR 0x0A]
               then Inr \<lparr>version = ver, prerelease = Some (hd r, int_of_digits d)\<rparr>
             else Inl ValueError)
      else Inl ValueError)"

definition StrictVersion_parse :: "string \<Rightarrow> error + strict_version" where
  "StrictVersion_parse s =
     (case span_digits s of
        (d1, r1) \<Rightarrow>
          if d1 = [] \<or> r1 = [] \<or> hd r1 \<noteq> CHR ''.'' then Inl ValueError
          else
            (case span_digits (tl r1) of
               (d2, r2) \<Rightarrow>
                 if d2 = [] then Inl ValueError
                 else if r2 \<noteq> [] \<and> hd r2 = CHR ''.'' then
                   (case span_digits (tl r2) of
                      (d3, r3) \<Rightarrow>
                        if d3 = [] then Inl ValueError
                        else parse_prerelease
                               (int_of_digits d1, int_of_digits d2, int_of_digits d3) r3)
                 else parse_prerelease (int_of_digits d1, int_of_digits d2, 0) r2))"

text \<open>
  \<^verbatim>\<open>StrictVersion.__cmp__\<close>: the number triples are compared first, as Python
  compares tuples; on equal triples a version with a pre-release tag comes before the
  same version without one, and two tags are compared as tuples.
\<close>

definition cmp :: "'a::linorder \<Rightarrow> 'a \<Rightarrow> int" where
  "cmp a b = (if a < b then - 1 else if a = b then 0 else 1)"

definition cmp_version :: "nat \<times> nat \<times> nat \<Rightarrow> nat \<times> nat \<times> nat \<Rightarrow> int" where
  "cmp_version x y =
     (case (x, y) of
        ((a1, b1, c1), (a2, b2, c2)) \<Rightarrow>
          if cmp a1 a2 \<noteq> 0 then cmp a1 a2
          else if cmp b1 b2 \<noteq> 0 then cmp b1 b2
          else cmp c1 c2)"

definition cmp_prerelease :: "char \<times> nat \<Rightarrow> char \<times> nat \<Rightarrow> int" where
  "cmp_prerelease x y =
     (case (x, y) of
        ((l1, n1), (l2, n2)) \<Rightarrow>
          if cmp (of_char l1 :: nat) (of_char l2) \<noteq> 0 then cmp (of_char l1 :: nat) (of_char l2)
          else cmp n1 n2)"

definition StrictVersion_cmp :: "strict_version \<Rightarrow> strict_version \<Rightarrow> int" where
  "StrictVersion_cmp a b =
     (let compare = cmp_version (version a) (version b) in
      if compare = 0 then
        (case (prerelease a, prerelease b) of
           (None, None) \<Rightarrow> 0
         | (Some p, None) \<Rightarrow> - 1
         | (None, Some q) \<Rightarrow> 1
         | (Some p, Some q) \<Rightarrow> cmp_prerelease p q)
      else compare)"

text \<open>
  Modelled from the spec: \<^verbatim>\<open>seesaw.util.find_executable\<close> is not in this
  repository. As the comment above its call in pipeline.py has it, the result is the
  first path that does not crash with \<^verbatim>\<open>--version\<close> and prints the required version
  string, and nothing when there is none. \<open>run_version path\<close> is what running the path
  prints, \<open>None\<close> when it cannot be run or crashes.
\<close>

definition test_executable :: "(string \<Rightarrow> string option) \<Rightarrow> string list \<Rightarrow> string \<Rightarrow> bool" where
  "test_executable run_version versions path =
     (case run_version path of
        None \<Rightarrow> False
      | Some out \<Rightarrow> list_ex (\<lambda>v. py_in v out) versions)"

definition find_executable ::
  "(string \<Rightarrow> string option) \<Rightarrow> string \<Rightarrow> string list \<Rightarrow> string list \<Rightarrow> string option" where
  "find_executable run_version name versions paths =
     find (test_executable run_version versions) paths"

text \<open>
  The candidate paths of the call, in its order.
\<close>

definition wget_lua_paths :: "string list" where
  "wget_lua_paths =
     [''./wget-lua'', ''./wget-lua-warrior'', ''./wget-lua-local'', ''../wget-lua'',
      ''../../wget-lua'', ''/home/warrior/wget-lua'', ''/usr/bin/wget-lua'']"

text \<open>
  The constants of the module.
\<close>

definition VERSION :: string where
  "VERSION = ''20131011.01''"

definition USER_AGENT :: string where
  "USER_AGENT = ''Something''"

definition TRACKER_ID :: string where
  "TRACKER_ID = ''bloopertv''"

definition TRACKER_HOST :: string where
  "TRACKER_HOST = ''tracker.archiveteam.org''"

text \<open>
  The tasks that pipeline.py hands to \<^verbatim>\<open>Pipeline(...)\<close>, with their arguments:
  strings, item interpolations and item values.
\<close>

datatype arg = Str string | ItemInterpolation string | ItemValue string

record number_config_value =
  min_value :: int
  max_value :: int
  default_value :: string
  config_name :: string
  title :: string
  description :: string

datatype task =
    GetItemFromTracker string string string
  | PrepareDirectories string
  | WgetDownload "arg list" nat "int list"
  | PrepareStatsForTracker "(string \<times> string) list" "(string \<times> arg list) list"
  | MoveFiles
  | LimitConcurrent number_config_value task
  | UploadWithTracker string string string "arg list" arg "string list"
  | SendDoneToTracker string arg

text \<open>
  The \<^verbatim>\<open>NumberConfigValue\<close> given to \<^verbatim>\<open>LimitConcurrent\<close>, and the task list of
  the module; \<^verbatim>\<open>downloader\<close> is the name the framework puts into the module's
  globals.
\<close>

definition rsync_threads :: number_config_value where
  "rsync_threads =
     \<lparr>min_value = 1, max_value = 4, default_value = ''1'',
      config_name = ''shared:rsync_threads'', title = ''Rsync threads'',
      description = ''The maximum number of concurrent uploads.''\<rparr>"

definition pipeline_tasks :: "string \<Rightarrow> string \<Rightarrow> task list" where
  "pipeline_tasks wget_lua downloader =
     [GetItemFromTracker (''http://'' @ TRACKER_HOST @ ''/'' @ TRACKER_ID) downloader VERSION,
      PrepareDirectories ''bliptv'',
      WgetDownload
        [Str wget_lua,
         Str ''-U'', Str USER_AGENT,
         Str ''-o'', ItemInterpolation ''%(item_dir)s/wget.log'',
         Str ''--no-check-certificate'',
         Str ''--truncate-output'',
         Str ''--output-document'', ItemInterpolation ''%(item_dir)s/%(file_base)s'',
         Str ''-e'', Str ''robots=off'',
         Str ''--rotate-dns'',
         Str ''--timeout'', Str ''60'',
         Str ''--level=inf'',
         Str ''--tries'', Str ''20'',
         Str ''--waitretry'', Str ''5'',
         ItemInterpolation ''%(item_name)s'']
        5 [0],
      PrepareStatsForTracker
        [(''downloader'', downloader), (''version'', VERSION)]
        [(''data'', [ItemInterpolation ''%(item_dir)s/%(file_base)s''])],
      MoveFiles,
      LimitConcurrent rsync_threads
        (UploadWithTracker (''http://tracker.archiveteam.org/'' @ TRACKER_ID) downloader VERSION
           [ItemInterpolation ''%(data_dir)s/%(file_base)s'']
           (ItemInterpolation ''%(data_dir)s/'')
           [''--recursive'', ''--partial'', ''--partial-dir'', ''.rsync-tmp'']),
      SendDoneToTracker (''http://'' @ TRACKER_HOST @ ''/'' @ TRACKER_ID) (ItemValue ''stats'')]"

text \<open>
  Loading the module: the version check, the search for Wget+Lua, and only then the
  pipeline. Either \<^verbatim>\<open>raise\<close> ends the load, and no pipeline exists.
\<close>

record pipeline_module =
  WGET_LUA :: string
  pipeline :: "task list"

definition module_load ::
  "string \<Rightarrow> (string \<Rightarrow> string option) \<Rightarrow> string \<Rightarrow> error + pipeline_module" where
  "module_load seesaw_version run_version downloader =
     (case StrictVersion_parse seesaw_version of
        Inl e \<Rightarrow> Inl e
      | Inr installed \<Rightarrow>
          (case StrictVersion_parse ''0.0.15'' of
             Inl e \<Rightarrow> Inl e
           | Inr required \<Rightarrow>
               if StrictVersion_cmp installed required < 0
                 then Inl (Exception ''This pipeline needs seesaw version 0.0.15 or higher.'')
               else
                 (case find_executable run_version ''Wget+Lua''
                         [''GNU Wget 1.14.lua.20130523-9a5c''] wget_lua_paths of
                    None \<Rightarrow> Inl (Exception ''No usable Wget+Lua found.'')
                  | Some w \<Rightarrow>
                      if w = [] then Inl (Exception ''No usable Wget+Lua found.'')
                      else Inr \<lparr>WGET_LUA = w, pipeline = pipeline_tasks w downloader\<rparr>)))"

text \<open>
  Modelled from the spec: the stage engine (seesaw's \<^verbatim>\<open>Pipeline\<close>, \<^verbatim>\<open>SimpleTask\<close>,
  \<^verbatim>\<open>ExternalProcess\<close> and \<^verbatim>\<open>LimitConcurrent\<close>) is not in this repository. A stage
  has a name, a kind, a retry policy (maximum attempts, acceptable result codes) and,
  when gated, the name of its gate.
\<close>

datatype stage_kind = Simple | Conditional | Gated

record retry_policy =
  maxAttempts :: nat
  acceptableCodes :: "int list"

record stage =
  stage_name :: string
  kind :: stage_kind
  retryPolicy :: retry_policy
  gateName :: "string option"

datatype item_status = Claimed | Running | Succeeded | Failed

datatype event =
    Begin string
  | Acquire string
  | Attempt string nat int
  | Release string
  | Skipped string
  | End string bool

text \<open>
  Modelled from the spec: any stage other than the download stage is fatal on its first
  failure, so it has one attempt; code 0 is the only success signal.
\<close>

definition no_retry :: retry_policy where
  "no_retry = \<lparr>maxAttempts = 1, acceptableCodes = [0]\<rparr>"

text \<open>
  Modelled from the spec: the stage a task of pipeline.py stands for; the download
  stage takes its policy from \<^verbatim>\<open>max_tries\<close> and \<^verbatim>\<open>accept_on_exit_code\<close>, and
  \<^verbatim>\<open>LimitConcurrent\<close> gates the task it wraps under the name of its configuration
  value.
\<close>

fun stage_of_task :: "task \<Rightarrow> stage" where
  "stage_of_task (GetItemFromTracker url downloader ver) =
     \<lparr>stage_name = ''GetItemFromTracker'', kind = Simple, retryPolicy = no_retry,
      gateName = None\<rparr>"
| "stage_of_task (PrepareDirectories file_prefix) =
     \<lparr>stage_name = ''PrepareDirectories'', kind = Simple, retryPolicy = no_retry,
      gateName = None\<rparr>"
| "stage_of_task (WgetDownload wget_args max_tries accept_on_exit_code) =
     \<lparr>stage_name = ''WgetDownload'', kind = Simple,
      retryPolicy = \<lparr>maxAttempts = max_tries, acceptableCodes = accept_on_exit_code\<rparr>,
      gateName = None\<rparr>"
| "stage_of_task (PrepareStatsForTracker defaults file_groups) =
     \<lparr>stage_name = ''PrepareStatsForTracker'', kind = Simple, retryPolicy = no_retry,
      gateName = None\<rparr>"
| "stage_of_task MoveFiles =
     \<lparr>stage_name = ''MoveFiles'', kind = Simple, retryPolicy = no_retry, gateName = None\<rparr>"
| "stage_of_task (LimitConcurrent cfg t) =
     (stage_of_task t)\<lparr>kind := Gated, gateName := Some (config_name cfg)\<rparr>"
| "stage_of_task (UploadWithTracker url downloader ver files src rsync_extra_args) =
     \<lparr>stage_name = ''UploadWithTracker'', kind = Simple, retryPolicy = no_retry,
      gateName = None\<rparr>"
| "stage_of_task (SendDoneToTracker url stats) =
     \<lparr>stage_name = ''SendDoneToTracker'', kind = Simple, retryPolicy = no_retry,
      gateName = None\<rparr>"

text \<open>
  Modelled from the spec: a stage invokes its action once per attempt, up to
  \<open>maxAttempts\<close> times; an attempt succeeds when its result code is among the acceptable
  codes, and the stage fails when the attempts are used up. \<open>act n k w\<close> is what the
  action of stage \<open>n\<close> does at its \<open>k\<close>-th attempt in state \<open>w\<close>: a result code and the
  state it leaves. The first argument counts the attempts left, the second those made.
\<close>

fun attempts ::
  "(nat \<Rightarrow> 'w \<Rightarrow> int \<times> 'w) \<Rightarrow> string \<Rightarrow> int list \<Rightarrow> nat \<Rightarrow> nat \<Rightarrow> 'w \<Rightarrow> bool \<times> event list \<times> 'w" where
  "attempts action n codes 0 made w = (False, [], w)"
| "attempts action n codes (Suc left) made w =
     (case action (Suc made) w of
        (code, w') \<Rightarrow>
          if code \<in> set codes then (True, [Attempt n (Suc made) code], w')
          else
            (case attempts action n codes left (Suc made) w' of
               (ok, evs, w'') \<Rightarrow> (ok, Attempt n (Suc made) code # evs, w'')))"

text \<open>
  Modelled from the spec: a simple stage runs its attempts; a conditional stage is
  skipped, and counts as a success, when its predicate is false; a gated stage acquires
  its gate before its action and releases it afterwards, whatever the outcome.
\<close>

definition run_stage ::
  "(string \<Rightarrow> nat \<Rightarrow> 'w \<Rightarrow> int \<times> 'w) \<Rightarrow> (string \<Rightarrow> 'w \<Rightarrow> bool) \<Rightarrow> stage \<Rightarrow> 'w \<Rightarrow>
   bool \<times> event list \<times> 'w" where
  "run_stage act cond s w =
     (let n = stage_name s;
          go = attempts (act n) n (acceptableCodes (retryPolicy s)) (maxAttempts (retryPolicy s)) 0
      in case kind s of
           Simple \<Rightarrow> go w
         | Conditional \<Rightarrow> if cond n w then go w else (True, [Skipped n], w)
         | Gated \<Rightarrow>
             (case gateName s of
                None \<Rightarrow> go w
              | Some g \<Rightarrow>
                  (case go w of (ok, evs, w') \<Rightarrow> (ok, Acquire g # evs @ [Release g], w'))))"

text \<open>
  Modelled from the spec: the stages of one item run in list order; a failed stage marks
  the item Failed and the remaining stages are not run.
\<close>

fun execute ::
  "(string \<Rightarrow> nat \<Rightarrow> 'w \<Rightarrow> int \<times> 'w) \<Rightarrow> (string \<Rightarrow> 'w \<Rightarrow> bool) \<Rightarrow> stage list \<Rightarrow> 'w \<Rightarrow>
   event list \<times> item_status \<times> 'w" where
  "execute act cond [] w = ([], Succeeded, w)"
| "execute act cond (s # ss) w =
     (case run_stage act cond s w of
        (ok, evs, w') \<Rightarrow>
          if ok then
            (case execute act cond ss w' of
               (rest, status, w'') \<Rightarrow>
                 (Begin (stage_name s) # evs @ End (stage_name s) True # rest, status, w''))
          else (Begin (stage_name s) # evs @ [End (stage_name s) False], Failed, w'))"

text \<open>
  The part of the log that one stage contributes: its name, its own events and whether
  it succeeded.
\<close>

definition block :: "string \<times> event list \<times> bool \<Rightarrow> event list" where
  "block b = (case b of (n, evs, ok) \<Rightarrow> Begin n # evs @ [End n ok])"

text \<open>
  The state an item's stages work on, and the external collaborators: the clock, and
  what the tracker, the downloader, the statistics and the upload do to the state.
\<close>

record world =
  item_of :: item
  fs_of :: filesystem

record collaborators =
  clock :: struct_time
  get_item :: "world \<Rightarrow> int \<times> world"
  wget :: "nat \<Rightarrow> world \<Rightarrow> int \<times> world"
  prepare_stats :: "world \<Rightarrow> int \<times> world"
  upload :: "world \<Rightarrow> int \<times> world"
  send_done :: "world \<Rightarrow> int \<times> world"

text \<open>
  Modelled from the spec: a task that raises fails its attempt, result code 1; one that
  returns has code 0. The actions of the seven stages are the collaborators' and, for
  PrepareDirectories and MoveFiles, the two \<^verbatim>\<open>process\<close> methods of pipeline.py.
\<close>

definition code_of :: "unit exec \<Rightarrow> int" where
  "code_of r = (case r of Return u \<Rightarrow> 0 | Raise e \<Rightarrow> 1)"

definition pipeline_action :: "collaborators \<Rightarrow> string \<Rightarrow> nat \<Rightarrow> world \<Rightarrow> int \<times> world" where
  "pipeline_action c n k w =
     (if n = ''GetItemFromTracker'' then get_item c w
      else if n = ''PrepareDirectories'' then
        (case PrepareDirectories_process ''bliptv'' (clock c) (item_of w) (fs_of w) of
           (r, i, f) \<Rightarrow> (code_of r, \<lparr>item_of = i, fs_of = f\<rparr>))
      else if n = ''WgetDownload'' then wget c k w
      else if n = ''PrepareStatsForTracker'' then prepare_stats c w
      else if n = ''MoveFiles'' then
        (case MoveFiles_process (item_of w) (fs_of w) of
           (r, f) \<Rightarrow> (code_of r, w\<lparr>fs_of := f\<rparr>))
      else if n = ''UploadWithTracker'' then upload c w
      else send_done c w)"

definition run_item ::
  "collaborators \<Rightarrow> task list \<Rightarrow> world \<Rightarrow> event list \<times> item_status \<times> world" where
  "run_item c tasks w = execute (pipeline_action c) (\<lambda>n w. True) (map stage_of_task tasks) w"

text \<open>
  Modelled from the spec: a concurrency gate, with the items waiting for it in arrival
  order. A request is admitted when \<open>inUse < capacity\<close> and waits otherwise; a release
  by a holder decrements \<open>inUse\<close> and admits the first waiting item, if any.
\<close>

record gate =
  capacity :: nat
  inUse :: nat
  waiting :: "nat list"

datatype gate_event = Request nat | Released

definition new_gate :: "nat \<Rightarrow> gate" where
  "new_gate c = \<lparr>capacity = c, inUse = 0, waiting = []\<rparr>"

fun gate_step :: "gate \<Rightarrow> gate_event \<Rightarrow> gate" where
  "gate_step g (Request i) =
     (if inUse g < capacity g then g\<lparr>inUse := inUse g + 1\<rparr>
      else g\<lparr>waiting := waiting g @ [i]\<rparr>)"
| "gate_step g Released =
     (if inUse g = 0 then g
      else
        (let g1 = g\<lparr>inUse := inUse g - 1\<rparr> in
         case waiting g1 of
           [] \<Rightarrow> g1
         | i # rest \<Rightarrow> g1\<lparr>inUse := inUse g1 + 1, waiting := rest\<rparr>))"

text \<open>
  Modelled from the spec: the operator's setting of a number configuration value is
  taken when it lies between its bounds and ignored otherwise; until the operator sets
  it, the value is the default, read as a decimal number.
\<close>

definition set_value :: "number_config_value \<Rightarrow> int \<Rightarrow> int \<Rightarrow> int" where
  "set_value cfg current v =
     (if min_value cfg \<le> v \<and> v \<le> max_value cfg then v else current)"

definition realize :: "number_config_value \<Rightarrow> int list \<Rightarrow> int" where
  "realize cfg settings =
     foldl (set_value cfg) (int (int_of_digits (default_value cfg))) settings"

definition upload_gate :: "int list \<Rightarrow> gate" where
  "upload_gate settings = new_gate (nat (realize rsync_threads settings))"

text \<open>
  Collaborators of the examples: a tracker, statistics and upload that succeed, and a
  downloader that fails on its first four attempts and writes the video over the
  placeholder at its fifth.
\<close>

definition example_world :: world where
  "example_world = \<lparr>item_of = example_item, fs_of = []\<rparr>"

definition flaky_collaborators :: collaborators where
  "flaky_collaborators =
     \<lparr>clock = example_time, get_item = (\<lambda>w. (0, w)),
      wget = (\<lambda>k w.
        if k < 5 then (1, w)
        else (0, w\<lparr>fs_of :=
                fs_put [''data'', ''ep-1.flv'', ''bliptv-20131011-120000-ep-1.flv'']
                  (File ''video'') (fs_of w)\<rparr>)),
      prepare_stats = (\<lambda>w. (0, w)), upload = (\<lambda>w. (0, w)), send_done = (\<lambda>w. (0, w))\<rparr>"

section \<open>Properties of the string operations\<close>

lemma py_split_not_Nil: "py_split sep s \<noteq> []"
  by (induction s) (simp_all add: Let_def)

lemma py_in_single: "py_in [c] s \<longleftrightarrow> c \<in> set s"
  by (induction s) auto

lemma py_in_sublist: "py_in sub s \<longleftrightarrow> sublist sub s"
proof (induction s)
  case Nil
  show ?case by simp
next
  case (Cons c cs)
  then show ?case
    by (cases sub) (auto simp: sublist_Cons_right)
qed

lemma py_split_no_sep: "sep \<notin> set s \<Longrightarrow> py_split sep s = [s]"
  by (induction s) (auto simp: Let_def)

lemma py_split_append:
  "py_split sep (a @ sep # b) = py_split sep a @ py_split sep b"
proof (induction a)
  case Nil
  show ?case by (simp add: Let_def)
next
  case (Cons c cs)
  have ne: "py_split sep cs \<noteq> []" by (rule py_split_not_Nil)
  show ?case
    using ne by (cases "py_split sep cs") (simp_all add: Let_def Cons.IH)
qed

lemma takeWhile_all: "\<forall>x \<in> set xs. P x \<Longrightarrow> takeWhile P xs = xs"
  by (simp add: takeWhile_eq_all_conv)

lemma after_last_slash_no_sep: "CHR ''/'' \<notin> set s \<Longrightarrow> after_last_slash s = s"
proof -
  assume "CHR ''/'' \<notin> set s"
  then have tw: "takeWhile (\<lambda>c. c \<noteq> CHR ''/'') (rev s) = rev s"
    by (intro takeWhile_all) auto
  show ?thesis unfolding after_last_slash_def tw by simp
qed

lemma after_last_slash_append:
  "CHR ''/'' \<notin> set b \<Longrightarrow> after_last_slash (a @ CHR ''/'' # b) = b"
proof -
  assume "CHR ''/'' \<notin> set b"
  then have tw: "takeWhile (\<lambda>c. c \<noteq> CHR ''/'') (rev b @ CHR ''/'' # rev a) = rev b"
    by (subst takeWhile_append2) auto
  show ?thesis unfolding after_last_slash_def rev_append rev.simps append_assoc append.simps tw
    by simp
qed

lemma last_py_split: "last (py_split CHR ''/'' s) = after_last_slash s"
proof (cases "CHR ''/'' \<in> set s")
  case False
  then show ?thesis by (simp add: py_split_no_sep after_last_slash_no_sep)
next
  case True
  then obtain a b where s: "s = a @ CHR ''/'' # b" and b: "CHR ''/'' \<notin> set b"
    by (auto dest: split_list_last)
  show ?thesis
    unfolding s using b
    by (simp add: py_split_append py_split_no_sep after_last_slash_append)
qed

lemma file_id_of_eq: "file_id_of s = Inr (after_last_slash s)"
  by (simp add: file_id_of_def py_last_def py_split_not_Nil last_py_split)

lemma after_last_slash_no_slash: "CHR ''/'' \<notin> set (after_last_slash s)"
proof
  assume "CHR ''/'' \<in> set (after_last_slash s)"
  then have "CHR ''/'' \<in> set (takeWhile (\<lambda>c. c \<noteq> CHR ''/'') (rev s))"
    by (simp add: after_last_slash_def)
  then show False by (auto dest: set_takeWhileD)
qed

section \<open>Properties of the path walk\<close>

lemma step_component_Nil: "step_component cur [] = cur"
  by (simp add: step_component_def)

lemma step_component_plain:
  "c \<noteq> [] \<Longrightarrow> c \<noteq> ''.'' \<Longrightarrow> c \<noteq> ''..'' \<Longrightarrow> step_component stk c = stk @ [c]"
  by (simp add: step_component_def)

lemma walk_resolve: "walk fs cur cs = Inr p \<Longrightarrow> p = foldl step_component cur cs"
  by (induction cs arbitrary: cur)
    (auto simp: step_component_Nil split: if_splits option.splits node.splits)

lemma namei_resolve: "namei fs s = Inr p \<Longrightarrow> s \<noteq> [] \<and> p = resolve s"
  by (auto simp: namei_def resolve_def split: if_splits dest: walk_resolve)

lemma walk_append:
  "walk fs cur (cs @ ds) =
     (case walk fs cur cs of Inl e \<Rightarrow> Inl e | Inr p \<Rightarrow> walk fs p ds)"
  by (induction cs arbitrary: cur) (auto split: option.splits node.splits)

lemma walk_filter: "walk fs cur (filter (\<lambda>c. c \<noteq> []) cs) = walk fs cur cs"
  by (induction cs arbitrary: cur) (auto split: option.splits node.splits)

lemma walk_mono:
  assumes "\<And>x. lookup fs x = Some Dir \<Longrightarrow> lookup fs' x = Some Dir"
  shows "walk fs cur cs = Inr p \<Longrightarrow> walk fs' cur cs = Inr p"
proof (induction cs arbitrary: cur)
  case Nil
  then show ?case by simp
next
  case (Cons c cs)
  show ?case
  proof (cases "c = []")
    case True
    with Cons show ?thesis by simp
  next
    case False
    with Cons.prems have d: "lookup fs cur = Some Dir"
      and w: "walk fs (step_component cur c) cs = Inr p"
      by (auto split: option.splits node.splits)
    from assms [OF d] Cons.IH [OF w] False show ?thesis by simp
  qed
qed

lemma namei_mono:
  assumes "\<And>x. lookup fs x = Some Dir \<Longrightarrow> lookup fs' x = Some Dir"
  shows "namei fs s = Inr p \<Longrightarrow> namei fs' s = Inr p"
  using walk_mono [of fs fs', OF assms] by (auto simp: namei_def split: if_splits)

text \<open>A walk that takes a component has found a directory where it started.\<close>

lemma walk_checks_start:
  "walk fs cur cs = Inr p \<Longrightarrow> filter (\<lambda>c. c \<noteq> []) cs \<noteq> [] \<Longrightarrow> lookup fs cur = Some Dir"
  by (induction cs arbitrary: cur) (auto split: if_splits option.splits node.splits)

lemma walk_snoc_plain:
  assumes "walk fs cur (cs @ [c]) = Inr p" and "plain_name c"
  shows "\<exists>d. walk fs cur cs = Inr d \<and> lookup fs d = Some Dir \<and> p = d @ [c]"
proof -
  from assms(1) obtain d where d: "walk fs cur cs = Inr d" and l: "walk fs d [c] = Inr p"
    by (auto simp: walk_append split: sum.splits)
  from l assms(2) have "lookup fs d = Some Dir" and "p = d @ [c]"
    by (auto simp: plain_name_def step_component_plain split: option.splits node.splits)
  with d show ?thesis by simp
qed

section \<open>Components of a path string\<close>

lemma py_split_snoc_slash: "py_split sep (a @ [sep]) = py_split sep a @ [[]]"
  using py_split_append [of sep a "[]"] by simp

lemma comps_append_slashes:
  "filter (\<lambda>c. c \<noteq> []) (py_split CHR ''/'' (a @ replicate k CHR ''/'')) =
   filter (\<lambda>c. c \<noteq> []) (py_split CHR ''/'' a)"
proof (induction k)
  case 0
  show ?case by simp
next
  case (Suc k)
  have e: "a @ replicate (Suc k) CHR ''/'' = (a @ replicate k CHR ''/'') @ [CHR ''/'']"
    by (simp add: replicate_append_same)
  show ?case unfolding e py_split_snoc_slash using Suc by simp
qed

lemma rstrip_slashes:
  "\<exists>k. h = rev (dropWhile (\<lambda>c. c = CHR ''/'') (rev h)) @ replicate k CHR ''/''"
proof -
  have "rev h = takeWhile (\<lambda>c. c = CHR ''/'') (rev h) @ dropWhile (\<lambda>c. c = CHR ''/'') (rev h)"
    by simp
  moreover have "takeWhile (\<lambda>c. c = CHR ''/'') (rev h) =
      replicate (length (takeWhile (\<lambda>c. c = CHR ''/'') (rev h))) CHR ''/''"
    by (rule replicate_length_same [symmetric]) (auto dest: set_takeWhileD)
  ultimately have "rev h = replicate (length (takeWhile (\<lambda>c. c = CHR ''/'') (rev h))) CHR ''/'' @
      dropWhile (\<lambda>c. c = CHR ''/'') (rev h)"
    by simp
  then have "h = rev (dropWhile (\<lambda>c. c = CHR ''/'') (rev h)) @
      replicate (length (takeWhile (\<lambda>c. c = CHR ''/'') (rev h))) CHR ''/''"
    by (metis rev_append rev_replicate rev_rev_ident)
  then show ?thesis by (rule exI)
qed

lemma comps_rstrip:
  "filter (\<lambda>c. c \<noteq> []) (py_split CHR ''/'' (rev (dropWhile (\<lambda>c. c = CHR ''/'') (rev h)))) =
   filter (\<lambda>c. c \<noteq> []) (py_split CHR ''/'' h)"
proof -
  from rstrip_slashes [of h] obtain k where
    "h = rev (dropWhile (\<lambda>c. c = CHR ''/'') (rev h)) @ replicate k CHR ''/''" ..
  then have "filter (\<lambda>c. c \<noteq> []) (py_split CHR ''/'' h) =
      filter (\<lambda>c. c \<noteq> [])
        (py_split CHR ''/'' (rev (dropWhile (\<lambda>c. c = CHR ''/'') (rev h)) @ replicate k CHR ''/''))"
    by simp
  then show ?thesis by (simp only: comps_append_slashes)
qed

lemma hd_rstrip:
  assumes "\<not> list_all (\<lambda>c. c = CHR ''/'') h"
  shows "rev (dropWhile (\<lambda>c. c = CHR ''/'') (rev h)) \<noteq> [] \<and>
     hd (rev (dropWhile (\<lambda>c. c = CHR ''/'') (rev h))) = hd h"
proof -
  from rstrip_slashes [of h] obtain k where
    h: "h = rev (dropWhile (\<lambda>c. c = CHR ''/'') (rev h)) @ replicate k CHR ''/''" ..
  have ne: "rev (dropWhile (\<lambda>c. c = CHR ''/'') (rev h)) \<noteq> []"
  proof
    assume "rev (dropWhile (\<lambda>c. c = CHR ''/'') (rev h)) = []"
    with h have "h = replicate k CHR ''/''" by simp
    then have "list_all (\<lambda>c. c = CHR ''/'') h" by (simp add: list_all_iff)
    with assms show False by simp
  qed
  then have "hd (rev (dropWhile (\<lambda>c. c = CHR ''/'') (rev h)) @ replicate k CHR ''/'') =
      hd (rev (dropWhile (\<lambda>c. c = CHR ''/'') (rev h)))"
    by simp
  with h ne show ?thesis by simp
qed

text \<open>
  What \<^verbatim>\<open>posixpath.split\<close> does to the components: the tail is the last one and
  the head has the others.
\<close>

lemma split_at_last_slash:
  "\<exists>h. p = h @ after_last_slash p \<and> (h = [] \<or> last h = CHR ''/'')"
proof -
  define t where "t = takeWhile (\<lambda>c. c \<noteq> CHR ''/'') (rev p)"
  define d where "d = dropWhile (\<lambda>c. c \<noteq> CHR ''/'') (rev p)"
  have "rev p = t @ d" by (simp add: t_def d_def)
  then have p: "p = rev d @ rev t" by (metis rev_append rev_rev_ident)
  have "d = [] \<or> hd d = CHR ''/''"
    using hd_dropWhile [of "\<lambda>c. c \<noteq> CHR ''/''" "rev p"] by (auto simp: d_def)
  then have "rev d = [] \<or> last (rev d) = CHR ''/''"
    by (auto simp: last_rev)
  with p show ?thesis unfolding after_last_slash_def t_def [symmetric] by blast
qed

lemma path_split_comps:
  assumes "path_split p = (h, t)"
  shows "t = after_last_slash p \<and>
     filter (\<lambda>c. c \<noteq> []) (py_split CHR ''/'' p) =
       filter (\<lambda>c. c \<noteq> []) (py_split CHR ''/'' h) @ (if t = [] then [] else [t]) \<and>
     (h \<noteq> [] \<longrightarrow> p \<noteq> [] \<and> hd h = hd p)"
proof -
  from split_at_last_slash [of p] obtain h0 where
    p: "p = h0 @ after_last_slash p" and h0: "h0 = [] \<or> last h0 = CHR ''/''" by blast
  have "length p - length (after_last_slash p) = length h0"
    using arg_cong [OF p, of length] by simp
  then have tk: "take (length p - length (after_last_slash p)) p = h0"
    using p by (metis append_eq_conv_conj)
  have ps: "path_split p =
      (if h0 \<noteq> [] \<and> \<not> list_all (\<lambda>c. c = CHR ''/'') h0
         then rev (dropWhile (\<lambda>c. c = CHR ''/'') (rev h0)) else h0,
       after_last_slash p)"
    unfolding path_split_def Let_def last_py_split tk ..
  have t: "t = after_last_slash p"
    using assms unfolding ps by simp
  have h: "h = (if h0 \<noteq> [] \<and> \<not> list_all (\<lambda>c. c = CHR ''/'') h0
      then rev (dropWhile (\<lambda>c. c = CHR ''/'') (rev h0)) else h0)"
    using assms unfolding ps by simp
  have ch: "filter (\<lambda>c. c \<noteq> []) (py_split CHR ''/'' h) =
      filter (\<lambda>c. c \<noteq> []) (py_split CHR ''/'' h0)"
    unfolding h by (simp add: comps_rstrip)
  have ns: "CHR ''/'' \<notin> set (after_last_slash p)" by (rule after_last_slash_no_slash)
  have cp: "filter (\<lambda>c. c \<noteq> []) (py_split CHR ''/'' p) =
      filter (\<lambda>c. c \<noteq> []) (py_split CHR ''/'' h0) @
        (if after_last_slash p = [] then [] else [after_last_slash p])"
  proof (cases "h0 = []")
    case True
    with p have "p = after_last_slash p" by simp
    with ns have "py_split CHR ''/'' p = [after_last_slash p]"
      by (metis py_split_no_sep)
    with True show ?thesis by simp
  next
    case False
    with h0 obtain a where a: "h0 = a @ [CHR ''/'']"
      by (metis append_butlast_last_id)
    have "p = a @ CHR ''/'' # after_last_slash p" using p a by simp
    then have "py_split CHR ''/'' p = py_split CHR ''/'' a @ [after_last_slash p]"
      using ns by (metis py_split_append py_split_no_sep)
    moreover have "py_split CHR ''/'' h0 = py_split CHR ''/'' a @ [[]]"
      unfolding a by (rule py_split_snoc_slash)
    ultimately show ?thesis by simp
  qed
  have hd: "p \<noteq> [] \<and> hd h = hd p" if "h \<noteq> []"
  proof -
    have h0ne: "h0 \<noteq> []" using that h by (auto split: if_splits)
    then have pne: "p \<noteq> []" and "hd p = hd h0" using p by (metis append_is_Nil_conv, metis hd_append2)
    moreover have "hd h = hd h0"
      using h hd_rstrip [of h0] by (auto split: if_splits)
    ultimately show ?thesis by simp
  qed
  from t ch cp hd show ?thesis by simp
qed

lemma makedirs_split_comps:
  assumes "makedirs_split s = (h, t)" and "t \<noteq> []"
  shows "filter (\<lambda>c. c \<noteq> []) (py_split CHR ''/'' s) =
       filter (\<lambda>c. c \<noteq> []) (py_split CHR ''/'' h) @ [t] \<and>
     CHR ''/'' \<notin> set t \<and>
     (h \<noteq> [] \<longrightarrow> s \<noteq> [] \<and> start_dir h = start_dir s)"
proof (cases "snd (path_split s) = []")
  case False
  then have ps: "path_split s = (h, t)" using assms(1) by (simp add: makedirs_split_def)
  from path_split_comps [OF ps] assms(2) show ?thesis
    by (auto simp: start_dir_def after_last_slash_no_slash)
next
  case True
  obtain h1 where p1: "path_split s = (h1, [])"
    using True by (cases "path_split s") simp
  then have p2: "path_split h1 = (h, t)" using assms(1) by (simp add: makedirs_split_def)
  from path_split_comps [OF p1] path_split_comps [OF p2] assms(2) show ?thesis
    by (auto simp: start_dir_def after_last_slash_no_slash)
qed

lemma last_component_split:
  "makedirs_split s = (h, t) \<Longrightarrow> t \<noteq> [] \<Longrightarrow> last_component s = t"
  by (drule (1) makedirs_split_comps) (simp add: last_component_def Let_def)

section \<open>Which exceptions the file operations raise\<close>

lemma mkdir_raises: "mkdir fs p = (Raise e, fs') \<Longrightarrow> \<exists>n. e = OSError n"
  by (auto simp: mkdir_def split: if_splits option.splits node.splits)

lemma os_mkdir_raises: "os_mkdir fs s = (Raise e, fs') \<Longrightarrow> \<exists>n. e = OSError n"
  by (auto simp: os_mkdir_def split: sum.splits dest: mkdir_raises)

text \<open>The four ways in which \<^verbatim>\<open>os.makedirs\<close> ends.\<close>

lemma os_makedirs_elim:
  assumes "os_makedirs fs s = (r, fs')"
  obtains
    (leaf) "\<not> (fst (makedirs_split s) \<noteq> [] \<and> snd (makedirs_split s) \<noteq> [] \<and>
         \<not> os_path_exists fs (fst (makedirs_split s)))"
      "os_mkdir fs s = (r, fs')"
  | (made) r1 fs1 where
      "fst (makedirs_split s) \<noteq> [] \<and> snd (makedirs_split s) \<noteq> [] \<and>
         \<not> os_path_exists fs (fst (makedirs_split s))"
      "os_makedirs fs (fst (makedirs_split s)) = (r1, fs1)"
      "r1 = Return () \<or> r1 = Raise (OSError EEXIST)"
      "snd (makedirs_split s) \<noteq> ''.''"
      "os_mkdir fs1 s = (r, fs')"
  | (dot) r1 where
      "fst (makedirs_split s) \<noteq> [] \<and> snd (makedirs_split s) \<noteq> [] \<and>
         \<not> os_path_exists fs (fst (makedirs_split s))"
      "os_makedirs fs (fst (makedirs_split s)) = (r1, fs')"
      "r1 = Return () \<or> r1 = Raise (OSError EEXIST)"
      "snd (makedirs_split s) = ''.''"
      "r = Return ()"
  | (fail) e where
      "fst (makedirs_split s) \<noteq> [] \<and> snd (makedirs_split s) \<noteq> [] \<and>
         \<not> os_path_exists fs (fst (makedirs_split s))"
      "e \<noteq> OSError EEXIST"
      "os_makedirs fs (fst (makedirs_split s)) = (Raise e, fs')"
      "r = Raise e"
proof (cases "fst (makedirs_split s) \<noteq> [] \<and> snd (makedirs_split s) \<noteq> [] \<and>
         \<not> os_path_exists fs (fst (makedirs_split s))")
  case False
  with assms have "os_mkdir fs s = (r, fs')"
    by (subst (asm) os_makedirs.simps) simp
  with False show ?thesis by (rule leaf)
next
  case True
  obtain r1 fs1 where rec: "os_makedirs fs (fst (makedirs_split s)) = (r1, fs1)"
    by (cases "os_makedirs fs (fst (makedirs_split s))")
  from assms True rec have
    *: "(case r1 of
          Raise e \<Rightarrow>
            if e \<noteq> OSError EEXIST then (Raise e, fs1)
            else if snd (makedirs_split s) = ''.'' then (Return (), fs1)
            else os_mkdir fs1 s
        | Return u \<Rightarrow>
            if snd (makedirs_split s) = ''.'' then (Return (), fs1)
            else os_mkdir fs1 s) = (r, fs')"
    by (subst (asm) os_makedirs.simps) (simp split: exec.splits)
  show ?thesis
  proof (cases "\<exists>e. r1 = Raise e \<and> e \<noteq> OSError EEXIST")
    case True
    then obtain e where e: "r1 = Raise e" "e \<noteq> OSError EEXIST" by blast
    with * have "r = Raise e" "fs' = fs1" by simp_all
    with rec e \<open>fst (makedirs_split s) \<noteq> [] \<and> snd (makedirs_split s) \<noteq> [] \<and>
         \<not> os_path_exists fs (fst (makedirs_split s))\<close>
    show ?thesis by (intro fail [of e]) simp_all
  next
    case False
    then have ok: "r1 = Return () \<or> r1 = Raise (OSError EEXIST)"
      by (cases r1) auto
    then have **: "(if snd (makedirs_split s) = ''.'' then (Return (), fs1)
        else os_mkdir fs1 s) = (r, fs')"
      using * by auto
    show ?thesis
    proof (cases "snd (makedirs_split s) = ''.''")
      case True
      with ** have "r = Return ()" "fs' = fs1" by simp_all
      with rec ok True \<open>fst (makedirs_split s) \<noteq> [] \<and> snd (makedirs_split s) \<noteq> [] \<and>
         \<not> os_path_exists fs (fst (makedirs_split s))\<close>
      show ?thesis by (intro dot [of r1]) simp_all
    next
      case False
      with ** have "os_mkdir fs1 s = (r, fs')" by simp
      with rec ok False \<open>fst (makedirs_split s) \<noteq> [] \<and> snd (makedirs_split s) \<noteq> [] \<and>
         \<not> os_path_exists fs (fst (makedirs_split s))\<close>
      show ?thesis by (intro made [of r1 fs1]) simp_all
    qed
  qed
qed

lemma makedirs_raises: "os_makedirs fs s = (Raise e, fs') \<Longrightarrow> \<exists>n. e = OSError n"
proof (induction fs s arbitrary: e fs' rule: os_makedirs.induct)
  case (1 fs name)
  from "1.prems" show ?case
  proof (cases rule: os_makedirs_elim)
    case leaf
    then show ?thesis by (auto dest: os_mkdir_raises)
  next
    case (made r1 fs1)
    then show ?thesis by (auto dest: os_mkdir_raises)
  next
    case (dot r1)
    then show ?thesis by simp
  next
    case (fail e1)
    from "1.IH" [OF fail(1) fail(3)] fail(4) show ?thesis by simp
  qed
qed

lemma rmtree_raises: "shutil_rmtree fs s = (Raise e, fs') \<Longrightarrow> \<exists>n. e = OSError n"
  by (auto simp: shutil_rmtree_def Let_def split: sum.splits node.splits if_splits)

lemma prepare_workdir_raises: "prepare_workdir fs s = (Raise e, fs') \<Longrightarrow> \<exists>n. e = OSError n"
  by (auto simp: prepare_workdir_def split: if_splits prod.splits exec.splits
      dest: rmtree_raises makedirs_raises)

lemma open_w_close_raises: "open_w_close fs s = (Raise e, fs') \<Longrightarrow> \<exists>n. e = IOError n"
  by (auto simp: open_w_close_def Let_def split: sum.splits if_splits option.splits node.splits)

lemma asserts_pass_iff:
  "asserts_pass name \<longleftrightarrow>
     CHR ''-'' \<in> set name \<and> CHR ''.'' \<in> set name \<and> CHR ''/'' \<in> set name \<and>
     sublist ''http://'' name"
  unfolding asserts_pass_def py_in_single by (simp add: py_in_sublist)

section \<open>Validation of the item name\<close>

text \<open>
  C5, as the specification states it, fails in both directions. The name
  \<open>http://blip.tv/show/ep1.flv\<close> has a scheme separator, a host/path separator and a
  filename component, and directory preparation rejects it, because it has no \<open>-\<close>. The
  name \<open>-.http://\<close> has neither host nor filename component, and directory preparation
  accepts it and returns.
\<close>

theorem validation_counterexample:
  "spec_structural_url ''http://blip.tv/show/ep1.flv'' \<and>
   fst (PrepareDirectories_process ''bliptv'' example_time
          [''item_name'' \<mapsto> ''http://blip.tv/show/ep1.flv'', ''data_dir'' \<mapsto> ''data''] []) =
     Raise AssertionError \<and>
   \<not> spec_structural_url ''-.http://'' \<and>
   fst (PrepareDirectories_process ''bliptv'' example_time
          [''item_name'' \<mapsto> ''-.http://'', ''data_dir'' \<mapsto> ''data''] []) = Return ()"
  by code_simp

text \<open>
  C5, amended: directory preparation fails its validation, with an assertion error,
  exactly for the item names that lack one of the characters \<open>-\<close>, \<open>.\<close>, \<open>/\<close> or the
  substring \<open>http://\<close>, each looked for anywhere in the name; no other shape of the name
  makes the validation fail.
\<close>

theorem validation_exact:
  assumes "item ''item_name'' = Some name"
  shows "fst (PrepareDirectories_process file_prefix now item fs) = Raise AssertionError \<longleftrightarrow>
     \<not> (CHR ''-'' \<in> set name \<and> CHR ''.'' \<in> set name \<and> CHR ''/'' \<in> set name \<and>
        sublist ''http://'' name)"
proof (cases "asserts_pass name")
  case False
  then have "fst (PrepareDirectories_process file_prefix now item fs) = Raise AssertionError"
    using assms by (auto simp: PrepareDirectories_process_def asserts_pass_def)
  with False show ?thesis by (simp add: asserts_pass_iff)
next
  case True
  then have a: "py_in ''-'' name" "py_in ''.'' name" "py_in ''/'' name" "py_in ''http://'' name"
    by (simp_all add: asserts_pass_def)
  have "fst (PrepareDirectories_process file_prefix now item fs) \<noteq> Raise AssertionError"
    using assms a
    by (auto simp: PrepareDirectories_process_def file_id_of_eq Let_def interp2_def
        split: option.splits prod.splits exec.splits
        dest: prepare_workdir_raises open_w_close_raises)
  with True show ?thesis by (simp add: asserts_pass_iff)
qed

theorem validation_exact_witness:
  "[''item_name'' \<mapsto> ''http://blip.tv/show/ep1.flv''] ''item_name'' =
     Some ''http://blip.tv/show/ep1.flv'' \<and>
   fst (PrepareDirectories_process ''bliptv'' example_time
          [''item_name'' \<mapsto> ''http://blip.tv/show/ep1.flv''] []) = Raise AssertionError"
  using validation_exact [of "[''item_name'' \<mapsto> ''http://blip.tv/show/ep1.flv'']"
      "''http://blip.tv/show/ep1.flv''" "''bliptv''" example_time "[]"]
  by simp

section \<open>Properties of the file system operations\<close>

lemma map_of_fs_filter: "map_of (fs_filter P fs) k = (if P k then map_of fs k else None)"
  unfolding fs_filter_def by (induction fs) auto

lemma lookup_fs_filter:
  "lookup (fs_filter P fs) k = (if fixed_dir k \<or> P k then lookup fs k else None)"
  by (simp add: lookup_def map_of_fs_filter)

lemma lookup_fs_put:
  "lookup (fs_put p n fs) k =
     (if fixed_dir k then Some Dir else if k = p then Some n else lookup fs k)"
  by (simp add: lookup_def fs_put_def map_of_fs_filter)

lemma fixed_dir_prefix: "prefix p q \<Longrightarrow> fixed_dir q \<Longrightarrow> fixed_dir p"
  by (auto simp: fixed_dir_def prefix_def list_all_iff append_eq_Cons_conv)

lemma lookup_fixed: "fixed_dir q \<Longrightarrow> lookup fs q = Some Dir"
  by (simp add: lookup_def)

lemma strict_prefix_not_fixed:
  "\<not> fixed_dir p \<Longrightarrow> prefix p q \<Longrightarrow> \<not> fixed_dir q"
  using fixed_dir_prefix by blast

lemma snoc_plain_not_fixed: "plain_name c \<Longrightarrow> CHR ''/'' \<notin> set c \<Longrightarrow> \<not> fixed_dir (d @ [c])"
  by (auto simp: fixed_dir_def plain_name_def list_all_iff append_eq_Cons_conv)

lemma mkdir_Return:
  "mkdir fs p = (Return u, fs') \<Longrightarrow>
     fs' = fs_put p Dir fs \<and> lookup fs p = None \<and> lookup fs (butlast p) = Some Dir"
  by (auto simp: mkdir_def split: if_splits option.splits node.splits)

lemma mkdir_cases:
  "mkdir fs p = (r, fs') \<Longrightarrow>
     fs' = fs \<or> (fs' = fs_put p Dir fs \<and> lookup fs p = None \<and> lookup fs (butlast p) = Some Dir)"
  by (auto simp: mkdir_def split: if_splits option.splits node.splits)

lemma os_mkdir_Return:
  "os_mkdir fs s = (Return u, fs') \<Longrightarrow>
     namei fs s = Inr (resolve s) \<and> lookup fs (resolve s) = None \<and>
     lookup fs (butlast (resolve s)) = Some Dir \<and> fs' = fs_put (resolve s) Dir fs"
  by (auto simp: os_mkdir_def split: sum.splits dest!: mkdir_Return namei_resolve)

lemma os_mkdir_cases:
  "os_mkdir fs s = (r, fs') \<Longrightarrow>
     fs' = fs \<or> (\<exists>p. fs' = fs_put p Dir fs \<and> lookup fs p = None \<and>
       lookup fs (butlast p) = Some Dir)"
  by (auto simp: os_mkdir_def split: sum.splits dest: mkdir_cases)

lemma wf_fs_parent:
  assumes "wf_fs fs" "\<not> fixed_dir p" "lookup fs p \<noteq> None"
  shows "lookup fs (butlast p) = Some Dir"
proof -
  from assms(2,3) obtain n where "map_of fs p = Some n"
    by (auto simp: lookup_def)
  then have "(p, n) \<in> set fs" by (rule map_of_SomeD)
  with assms(1) show ?thesis by (auto simp: wf_fs_def list_all_iff)
qed

lemma wf_fs_below_missing:
  assumes wf: "wf_fs fs" and none: "lookup fs p = None"
  shows "lookup fs (p @ r) = None"
proof (induction r rule: rev_induct)
  case Nil
  show ?case using none by simp
next
  case (snoc c r)
  show ?case
  proof (rule ccontr)
    assume ex: "lookup fs (p @ r @ [c]) \<noteq> None"
    have "\<not> fixed_dir p" using none by (auto simp: lookup_def split: if_splits)
    then have "\<not> fixed_dir (p @ r @ [c])"
      using fixed_dir_prefix [of p "p @ r @ [c]"] by auto
    from wf_fs_parent [OF wf this ex] have "lookup fs (p @ r) = Some Dir"
      by (simp add: butlast_append)
    with snoc.IH show False by simp
  qed
qed

lemma wf_fs_put_dir:
  assumes wf: "wf_fs fs" and none: "lookup fs p = None"
    and par: "lookup fs (butlast p) = Some Dir"
  shows "wf_fs (fs_put p Dir fs)"
proof -
  have nf: "\<not> fixed_dir p" using none by (auto simp: lookup_def split: if_splits)
  have d: "distinct (map fst (fs_put p Dir fs))"
    using wf by (auto simp: wf_fs_def fs_put_def fs_filter_def distinct_map_filter)
  have keep: "lookup (fs_put p Dir fs) x = Some Dir" if "lookup fs x = Some Dir" for x
    using that by (simp add: lookup_fs_put)
  have "list_all (\<lambda>(q, n). \<not> fixed_dir q \<and> lookup (fs_put p Dir fs) (butlast q) = Some Dir)
      (fs_put p Dir fs)"
    using wf nf par keep
    by (auto simp: wf_fs_def list_all_iff fs_put_def fs_filter_def
        simp del: split_paired_All)
  with d show ?thesis by (simp add: wf_fs_def)
qed

lemma os_mkdir_wf: "wf_fs fs \<Longrightarrow> os_mkdir fs s = (r, fs') \<Longrightarrow> wf_fs fs'"
  by (auto dest!: os_mkdir_cases intro: wf_fs_put_dir)

lemma makedirs_wf: "wf_fs fs \<Longrightarrow> os_makedirs fs s = (r, fs') \<Longrightarrow> wf_fs fs'"
proof (induction fs s arbitrary: r fs' rule: os_makedirs.induct)
  case (1 fs name)
  from "1.prems"(2) show ?case
  proof (cases rule: os_makedirs_elim)
    case leaf
    with "1.prems"(1) show ?thesis by (auto dest: os_mkdir_wf)
  next
    case (made r1 fs1)
    from "1.IH" [OF made(1) "1.prems"(1) made(2)] have "wf_fs fs1" .
    then show ?thesis using made(5) by (rule os_mkdir_wf)
  next
    case (dot r1)
    from "1.IH" [OF dot(1) "1.prems"(1) dot(2)] show ?thesis .
  next
    case (fail e)
    from "1.IH" [OF fail(1) "1.prems"(1) fail(3)] show ?thesis .
  qed
qed

text \<open>
  When \<^verbatim>\<open>os.makedirs\<close> returns for a path that does not end in \<open>.\<close>, its last step
  was the \<^verbatim>\<open>os.mkdir\<close> of that path.
\<close>

lemma makedirs_Return_final:
  assumes "os_makedirs fs s = (Return u, fs')" and "last_component s \<noteq> ''.''"
  shows "\<exists>fs1. os_mkdir fs1 s = (Return u, fs') \<and> (wf_fs fs \<longrightarrow> wf_fs fs1)"
  using assms(1)
proof (cases rule: os_makedirs_elim)
  case leaf
  then show ?thesis by blast
next
  case (made r1 fs1)
  from made(2) have "wf_fs fs \<longrightarrow> wf_fs fs1" by (auto dest: makedirs_wf)
  with made(5) show ?thesis by blast
next
  case (dot r1)
  obtain h t where ht: "makedirs_split s = (h, t)" by (cases "makedirs_split s")
  with dot(4) have "t = ''.''" by simp
  with last_component_split [OF ht] have "last_component s = ''.''" by simp
  with assms(2) show ?thesis by simp
next
  case (fail e)
  then show ?thesis by simp
qed

lemma os_path_isdir_iff:
  "os_path_isdir fs s \<longleftrightarrow> namei fs s = Inr (resolve s) \<and> lookup fs (resolve s) = Some Dir"
  by (auto simp: os_path_isdir_def stat_def split: sum.splits option.splits node.splits
      dest: namei_resolve)

lemma os_path_isdir_nonempty: "os_path_isdir fs s \<Longrightarrow> s \<noteq> []"
  by (auto simp: os_path_isdir_iff dest: namei_resolve)

lemma rmtree_Return:
  "shutil_rmtree fs s = (Return u, fs') \<Longrightarrow>
     os_path_isdir fs s \<and> \<not> fixed_dir (resolve s) \<and>
     last_component s \<noteq> ''.'' \<and> last_component s \<noteq> ''..'' \<and>
     fs' = fs_filter (\<lambda>q. \<not> prefix (resolve s) q) fs"
  by (auto simp: shutil_rmtree_def os_path_isdir_def Let_def
      split: sum.splits node.splits if_splits)

lemma rmtree_isdir:
  "os_path_isdir fs s \<Longrightarrow> \<not> fixed_dir (resolve s) \<Longrightarrow>
     last_component s \<noteq> ''.'' \<Longrightarrow> last_component s \<noteq> ''..'' \<Longrightarrow>
     shutil_rmtree fs s = (Return (), fs_filter (\<lambda>q. \<not> prefix (resolve s) q) fs)"
  by (simp add: shutil_rmtree_def os_path_isdir_def Let_def)

lemma wf_fs_remove:
  assumes wf: "wf_fs fs" and nf: "\<not> fixed_dir p"
  shows "wf_fs (fs_filter (\<lambda>q. \<not> prefix p q) fs)"
proof -
  have d: "distinct (map fst (fs_filter (\<lambda>q. \<not> prefix p q) fs))"
    using wf by (auto simp: wf_fs_def fs_filter_def distinct_map_filter)
  have "lookup (fs_filter (\<lambda>q. \<not> prefix p q) fs) (butlast q) = Some Dir"
    if "(q, n) \<in> set fs" "\<not> prefix p q" for q n
  proof -
    have par: "lookup fs (butlast q) = Some Dir"
      using wf that(1) by (auto simp: wf_fs_def list_all_iff)
    have "\<not> prefix p (butlast q)"
      using that(2) by (meson prefix_order.trans prefixeq_butlast)
    with par show ?thesis by (simp add: lookup_fs_filter)
  qed
  moreover have "\<not> fixed_dir q" if "(q, n) \<in> set fs" for q n
    using wf that by (auto simp: wf_fs_def list_all_iff)
  ultimately have "list_all (\<lambda>(q, n). \<not> fixed_dir q \<and>
      lookup (fs_filter (\<lambda>q. \<not> prefix p q) fs) (butlast q) = Some Dir)
      (fs_filter (\<lambda>q. \<not> prefix p q) fs)"
    by (auto simp: list_all_iff fs_filter_def)
  with d show ?thesis by (simp add: wf_fs_def)
qed

lemma prepare_workdir_Return:
  assumes wf: "wf_fs fs" and ret: "prepare_workdir fs dirname = (Return u, fs')"
    and nd: "last_component dirname \<noteq> ''.''"
  shows "os_path_isdir fs' dirname \<and> \<not> fixed_dir (resolve dirname) \<and>
     (\<forall>q. strict_prefix (resolve dirname) q \<longrightarrow> lookup fs' q = None)"
proof -
  define p where "p = resolve dirname"
  have "\<exists>fs0. wf_fs fs0 \<and> os_makedirs fs0 dirname = (Return u, fs')"
  proof (cases "os_path_isdir fs dirname")
    case False
    with ret wf show ?thesis by (auto simp: prepare_workdir_def)
  next
    case True
    obtain r1 fs1 where rm: "shutil_rmtree fs dirname = (r1, fs1)"
      by (cases "shutil_rmtree fs dirname")
    from ret True rm have r1: "r1 = Return ()" and mk: "os_makedirs fs1 dirname = (Return u, fs')"
      by (auto simp: prepare_workdir_def split: exec.splits)
    from rm r1 have "\<not> fixed_dir p" and "fs1 = fs_filter (\<lambda>q. \<not> prefix p q) fs"
      unfolding p_def by (auto dest: rmtree_Return)
    with wf have "wf_fs fs1" by (simp add: wf_fs_remove)
    with mk show ?thesis by blast
  qed
  then obtain fs0 where wf0: "wf_fs fs0" and mk: "os_makedirs fs0 dirname = (Return u, fs')"
    by blast
  from makedirs_Return_final [OF mk nd] wf0 obtain fs1 where
    md: "os_mkdir fs1 dirname = (Return u, fs')" and wf1: "wf_fs fs1" by blast
  from os_mkdir_Return [OF md] have nm: "namei fs1 dirname = Inr p"
    and none: "lookup fs1 p = None" and fs': "fs' = fs_put p Dir fs1"
    unfolding p_def by simp_all
  have nf: "\<not> fixed_dir p" using none by (auto simp: lookup_def split: if_splits)
  have keep: "lookup fs' x = Some Dir" if "lookup fs1 x = Some Dir" for x
    using that by (simp add: fs' lookup_fs_put)
  have "namei fs' dirname = Inr p"
    using nm by (rule namei_mono [rotated]) (rule keep)
  moreover have "lookup fs' p = Some Dir" using nf by (simp add: fs' lookup_fs_put)
  ultimately have dir: "os_path_isdir fs' dirname"
    by (simp add: os_path_isdir_iff p_def)
  have below: "lookup fs' q = None" if "strict_prefix p q" for q
  proof -
    from that obtain r where q: "q = p @ r" by (auto simp: strict_prefix_def prefix_def)
    have "lookup fs1 q = None" unfolding q by (rule wf_fs_below_missing [OF wf1 none])
    moreover have "\<not> fixed_dir q"
      using nf that by (auto simp: strict_prefix_def dest: fixed_dir_prefix)
    ultimately show ?thesis using that by (simp add: fs' lookup_fs_put)
  qed
  from dir nf below show ?thesis unfolding p_def by blast
qed

lemma py_split_no_sep_in: "c \<in> set (py_split sep s) \<Longrightarrow> sep \<notin> set c"
proof (induction s arbitrary: c)
  case Nil
  then show ?case by simp
next
  case (Cons a s)
  have ne: "py_split sep s \<noteq> []" by (rule py_split_not_Nil)
  then obtain x xs where x: "py_split sep s = x # xs" by (cases "py_split sep s") auto
  from Cons.IH [of x] Cons.IH x have ih: "sep \<notin> set x" "\<And>y. y \<in> set xs \<Longrightarrow> sep \<notin> set y"
    by simp_all
  from Cons.prems x ih show ?case
    by (auto simp: Let_def split: if_splits)
qed

lemma step_component_grows: "c \<noteq> ''..'' \<Longrightarrow> prefix cur (step_component cur c)"
  by (simp add: step_component_def)

lemma no_dotdot_prefix:
  "''..'' \<notin> set cs \<Longrightarrow> prefix cur (foldl step_component cur cs)"
proof (induction cs arbitrary: cur)
  case Nil
  show ?case by simp
next
  case (Cons c cs)
  then have "prefix (step_component cur c) (foldl step_component (step_component cur c) cs)"
    by simp
  moreover have "c \<noteq> ''..''" using Cons.prems by auto
  then have "prefix cur (step_component cur c)"
    by (rule step_component_grows)
  ultimately show ?case by (auto intro: prefix_order.trans)
qed

text \<open>
  A path without \<open>..\<close> is walked through the ancestors of its end only, so the walk is
  the same in a file system that has the same directories there.
\<close>

lemma walk_agree:
  assumes keep: "\<And>x. prefix x p \<Longrightarrow> lookup fs x = Some Dir \<Longrightarrow> lookup fs1 x = Some Dir"
  shows "''..'' \<notin> set cs \<Longrightarrow> walk fs cur cs = Inr p \<Longrightarrow> walk fs1 cur cs = Inr p"
proof (induction cs arbitrary: cur)
  case Nil
  then show ?case by simp
next
  case (Cons c cs)
  show ?case
  proof (cases "c = []")
    case True
    with Cons show ?thesis by simp
  next
    case False
    with Cons.prems(2) have d: "lookup fs cur = Some Dir"
      and w: "walk fs (step_component cur c) cs = Inr p"
      by (auto split: option.splits node.splits)
    from walk_resolve [OF w] have "p = foldl step_component (step_component cur c) cs" .
    then have "prefix (step_component cur c) p"
      using no_dotdot_prefix [of cs "step_component cur c"] Cons.prems(1) by simp
    moreover have "c \<noteq> ''..''" using Cons.prems(1) by auto
    then have "prefix cur (step_component cur c)"
      by (rule step_component_grows)
    ultimately have "prefix cur p" by (auto intro: prefix_order.trans)
    from keep [OF this d] have d1: "lookup fs1 cur = Some Dir" .
    from Cons.IH [OF _ w] Cons.prems(1) have "walk fs1 (step_component cur c) cs = Inr p"
      by simp
    with d1 False show ?thesis by simp
  qed
qed

text \<open>The walk of a path string that ends in a plain name.\<close>

lemma namei_plain_last:
  assumes nm: "namei fs s = Inr p" and pl: "plain_name (last_component s)"
  shows "\<exists>hs d. filter (\<lambda>c. c \<noteq> []) (py_split CHR ''/'' s) = hs @ [last_component s] \<and>
     walk fs (start_dir s) hs = Inr d \<and> lookup fs d = Some Dir \<and>
     p = d @ [last_component s] \<and> \<not> fixed_dir p"
proof -
  define cs where "cs = filter (\<lambda>c. c \<noteq> []) (py_split CHR ''/'' s)"
  have ne: "cs \<noteq> []"
    using pl by (auto simp: last_component_def Let_def plain_name_def cs_def)
  then have t: "last_component s = last cs"
    by (simp add: last_component_def Let_def cs_def)
  from ne have cs: "cs = butlast cs @ [last_component s]" by (simp add: t)
  have "last cs \<in> set (py_split CHR ''/'' s)"
    using ne last_in_set [OF ne] by (auto simp: cs_def)
  then have ns: "CHR ''/'' \<notin> set (last_component s)"
    unfolding t by (rule py_split_no_sep_in)
  from nm have "walk fs (start_dir s) cs = Inr p"
    by (auto simp: namei_def cs_def walk_filter split: if_splits)
  then have "walk fs (start_dir s) (butlast cs @ [last_component s]) = Inr p"
    using cs by simp
  from walk_snoc_plain [OF this pl] obtain d where
    d: "walk fs (start_dir s) (butlast cs) = Inr d" "lookup fs d = Some Dir"
      "p = d @ [last_component s]" by blast
  have "\<not> fixed_dir p" unfolding d(3) using pl ns by (rule snoc_plain_not_fixed)
  with cs d show ?thesis unfolding cs_def by blast
qed

lemma prepare_workdir_stale:
  assumes wf: "wf_fs fs" and dir: "os_path_isdir fs dirname"
    and nodd: "''..'' \<notin> set (py_split CHR ''/'' dirname)"
    and pl: "plain_name (last_component dirname)"
  shows "\<exists>fs'. prepare_workdir fs dirname = (Return (), fs')"
proof -
  define p where "p = resolve dirname"
  define t where "t = last_component dirname"
  define fs1 where "fs1 = fs_filter (\<lambda>q. \<not> prefix p q) fs"
  from dir have nm: "namei fs dirname = Inr p" and ex: "lookup fs p = Some Dir"
    by (simp_all add: os_path_isdir_iff p_def)
  from namei_resolve [OF nm] have ne: "dirname \<noteq> []" by simp
  from namei_plain_last [OF nm pl] obtain hs d where
    cs: "filter (\<lambda>c. c \<noteq> []) (py_split CHR ''/'' dirname) = hs @ [t]" and
    wd: "walk fs (start_dir dirname) hs = Inr d" and dd: "lookup fs d = Some Dir" and
    pd: "p = d @ [t]" and nf: "\<not> fixed_dir p"
    unfolding t_def by blast
  have tne: "t \<noteq> ''.''" "t \<noteq> ''..''" "t \<noteq> []"
    using pl by (simp_all add: plain_name_def t_def)
  have rm: "shutil_rmtree fs dirname = (Return (), fs1)"
    using rmtree_isdir [OF dir] nf tne by (simp add: fs1_def p_def t_def)
  have "set hs \<subseteq> set (py_split CHR ''/'' dirname)"
  proof -
    have "set (hs @ [t]) \<subseteq> set (py_split CHR ''/'' dirname)"
      unfolding cs [symmetric] by auto
    then show ?thesis by simp
  qed
  with nodd have nodd': "''..'' \<notin> set hs" by auto
  have keep: "lookup fs1 x = Some Dir" if "prefix x d" "lookup fs x = Some Dir" for x
  proof -
    have "\<not> prefix p x"
    proof
      assume "prefix p x"
      with that(1) have "prefix p d" by (auto intro: prefix_order.trans)
      then show False by (auto simp: pd dest: prefix_length_le)
    qed
    with that(2) show ?thesis by (simp add: fs1_def lookup_fs_filter)
  qed
  have wd1: "walk fs1 (start_dir dirname) hs = Inr d"
    using nodd' wd by (rule walk_agree [rotated]) (rule keep)
  have dd1: "lookup fs1 d = Some Dir" by (rule keep) (simp_all add: dd)
  have "walk fs1 (start_dir dirname) (hs @ [t]) = Inr p"
    using wd1 dd1 tne by (simp add: walk_append pd step_component_plain)
  then have nm1: "namei fs1 dirname = Inr p"
    using ne by (simp add: namei_def cs [symmetric] walk_filter)
  have gone: "lookup fs1 p = None"
    using nf by (simp add: fs1_def lookup_fs_filter)
  have par1: "lookup fs1 (butlast p) = Some Dir"
    using dd1 by (simp add: pd)
  have md: "os_mkdir fs1 dirname = (Return (), fs_put p Dir fs1)"
    using nm1 gone par1 by (simp add: os_mkdir_def mkdir_def)
  have nc: "\<not> (fst (makedirs_split dirname) \<noteq> [] \<and> snd (makedirs_split dirname) \<noteq> [] \<and>
         \<not> os_path_exists fs1 (fst (makedirs_split dirname)))"
  proof
    assume a: "fst (makedirs_split dirname) \<noteq> [] \<and> snd (makedirs_split dirname) \<noteq> [] \<and>
         \<not> os_path_exists fs1 (fst (makedirs_split dirname))"
    obtain h t' where ht: "makedirs_split dirname = (h, t')"
      by (cases "makedirs_split dirname")
    with a have h: "h \<noteq> []" and t': "t' \<noteq> []" and nex: "\<not> os_path_exists fs1 h"
      by simp_all
    from makedirs_split_comps [OF ht t'] h have
      c: "filter (\<lambda>c. c \<noteq> []) (py_split CHR ''/'' dirname) =
          filter (\<lambda>c. c \<noteq> []) (py_split CHR ''/'' h) @ [t']"
      and st: "start_dir h = start_dir dirname"
      by simp_all
    from c cs have "filter (\<lambda>c. c \<noteq> []) (py_split CHR ''/'' h) = hs" by simp
    then have "walk fs1 (start_dir h) (py_split CHR ''/'' h) = Inr d"
      using wd1 st walk_filter [of fs1 "start_dir h" "py_split CHR ''/'' h"] by simp
    then have "namei fs1 h = Inr d" using h by (simp add: namei_def)
    with dd1 have "os_path_exists fs1 h"
      by (simp add: os_path_exists_def stat_def)
    with nex show False by simp
  qed
  have "os_makedirs fs1 dirname = os_mkdir fs1 dirname"
    by (subst os_makedirs.simps) (rule if_not_P [OF nc])
  with md have "os_makedirs fs1 dirname = (Return (), fs_put p Dir fs1)" by simp
  then show ?thesis
    using dir rm by (simp add: prepare_workdir_def)
qed

section \<open>The working directory\<close>

text \<open>
  C7, as the specification states it, fails for an item name that ends in \<open>/.\<close>: the
  target path is then \<open>data/.\<close>; when the data directory exists, everything in it is
  removed, the \<^verbatim>\<open>rmdir\<close> of a path ending in \<open>.\<close> is refused, and directory
  preparation fails with the old directory still in place and no new one made.
\<close>

theorem workdir_counterexample:
  "wf_fs stale_fs \<and>
   asserts_pass ''http://blip.tv/a-b/.'' \<and>
   os_path_isdir stale_fs ''data/.'' \<and>
   prepare_workdir stale_fs ''data/.'' = (Raise (OSError EINVAL), [([''data''], Dir)]) \<and>
   fst (PrepareDirectories_process ''bliptv'' example_time dot_item stale_fs) =
     Raise (OSError EINVAL) \<and>
   snd (snd (PrepareDirectories_process ''bliptv'' example_time dot_item stale_fs)) =
     [([''data''], Dir)]"
  by code_simp

text \<open>
  C7, amended: on a well-formed file system, whenever lines 123 to 126 of directory
  preparation return for a target path that does not end in a \<open>.\<close> component, the
  working directory exists and nothing lies below it, so nothing of an old directory is
  kept. And when a directory is already at a target path that has no \<open>..\<close> component
  and ends in a plain name, it is removed with all it holds and a new directory is made:
  the step returns.
\<close>

theorem workdir_fresh:
  assumes "wf_fs fs"
  shows "(\<forall>fs'. prepare_workdir fs dirname = (Return (), fs') \<and>
              last_component dirname \<noteq> ''.'' \<longrightarrow>
            os_path_isdir fs' dirname \<and>
            (\<forall>q. strict_prefix (resolve dirname) q \<longrightarrow> lookup fs' q = None)) \<and>
         (os_path_isdir fs dirname \<and> ''..'' \<notin> set (py_split CHR ''/'' dirname) \<and>
          plain_name (last_component dirname) \<longrightarrow>
            (\<exists>fs'. prepare_workdir fs dirname = (Return (), fs')))"
proof (rule conjI)
  show "\<forall>fs'. prepare_workdir fs dirname = (Return (), fs') \<and>
              last_component dirname \<noteq> ''.'' \<longrightarrow>
            os_path_isdir fs' dirname \<and>
            (\<forall>q. strict_prefix (resolve dirname) q \<longrightarrow> lookup fs' q = None)"
    using prepare_workdir_Return [OF assms, of dirname] by blast
next
  show "os_path_isdir fs dirname \<and> ''..'' \<notin> set (py_split CHR ''/'' dirname) \<and>
          plain_name (last_component dirname) \<longrightarrow>
            (\<exists>fs'. prepare_workdir fs dirname = (Return (), fs'))"
    using prepare_workdir_stale [OF assms, of dirname] by blast
qed

theorem workdir_fresh_witness:
  "wf_fs stale_fs \<and> os_path_isdir stale_fs ''data/ep-1.flv'' \<and>
   ''..'' \<notin> set (py_split CHR ''/'' ''data/ep-1.flv'') \<and>
   plain_name (last_component ''data/ep-1.flv'') \<and>
   last_component ''data/ep-1.flv'' \<noteq> ''.'' \<and>
   (\<exists>fs'. prepare_workdir stale_fs ''data/ep-1.flv'' = (Return (), fs') \<and>
      os_path_isdir fs' ''data/ep-1.flv'' \<and>
      lookup fs' [''data'', ''ep-1.flv'', ''stale''] = None)"
proof -
  have wf: "wf_fs stale_fs" by code_simp
  have dir: "os_path_isdir stale_fs ''data/ep-1.flv''" by code_simp
  have nodd: "''..'' \<notin> set (py_split CHR ''/'' ''data/ep-1.flv'')" by code_simp
  have pl: "plain_name (last_component ''data/ep-1.flv'')" by code_simp
  have nd: "last_component ''data/ep-1.flv'' \<noteq> ''.''" by code_simp
  have rs: "resolve ''data/ep-1.flv'' = [''data'', ''ep-1.flv'']" by code_simp
  note t = workdir_fresh [OF wf, of "''data/ep-1.flv''"]
  from t [THEN conjunct2] dir nodd pl
  obtain fs' where ret: "prepare_workdir stale_fs ''data/ep-1.flv'' = (Return (), fs')"
    by blast
  from t [THEN conjunct1] ret nd
  have fresh: "os_path_isdir fs' ''data/ep-1.flv''"
      "\<And>q. strict_prefix (resolve ''data/ep-1.flv'') q \<Longrightarrow> lookup fs' q = None"
    by blast+
  have "lookup fs' [''data'', ''ep-1.flv'', ''stale''] = None"
    by (rule fresh(2)) (simp add: rs)
  with wf dir nodd pl nd ret fresh(1) show ?thesis by blast
qed

section \<open>The placeholder file\<close>

lemma digit_not_slash: "digit n \<noteq> CHR ''/''"
proof
  assume "digit n = CHR ''/''"
  then have "of_char (char_of (48 + n mod 10) :: char) = (of_char (CHR ''/'') :: nat)"
    by (simp add: digit_def)
  then have "(48 + n mod 10) mod 256 = (47 :: nat)"
    by (simp add: of_char_of)
  moreover have "n mod 10 < 10" by simp
  then have "(48 + n mod 10) mod 256 = 48 + n mod 10" by simp
  ultimately show False by simp
qed

lemma strftime_no_slash: "CHR ''/'' \<notin> set (strftime_Ymd_HMS t)"
  by (simp add: strftime_Ymd_HMS_def digits2_def digits4_def digit_not_slash [symmetric])

lemma strftime_length: "length (strftime_Ymd_HMS t) = 15"
  by (simp add: strftime_Ymd_HMS_def digits2_def digits4_def)

lemma start_dir_append: "a \<noteq> [] \<Longrightarrow> start_dir (a @ b) = start_dir a"
  by (simp add: start_dir_def)


lemma namei_child:
  assumes nm: "namei fs a = Inr p" and dir: "lookup fs p = Some Dir"
    and c: "plain_name c" "CHR ''/'' \<notin> set c"
  shows "namei fs (a @ ''/'' @ c) = Inr (p @ [c])"
proof -
  from namei_resolve [OF nm] have ne: "a \<noteq> []" by simp
  have sp: "py_split CHR ''/'' (a @ CHR ''/'' # c) = py_split CHR ''/'' a @ [c]"
    using c(2) by (simp add: py_split_append py_split_no_sep)
  from nm ne have w: "walk fs (start_dir a) (py_split CHR ''/'' a) = Inr p"
    by (simp add: namei_def)
  have "walk fs (start_dir a) (py_split CHR ''/'' a @ [c]) = Inr (p @ [c])"
    using w dir c(1) by (simp add: walk_append plain_name_def step_component_plain)
  then show ?thesis
    using ne by (simp add: namei_def sp start_dir_append)
qed

lemma comps_nonempty:
  "filter (\<lambda>c. c \<noteq> []) (py_split CHR ''/'' b) = [] \<Longrightarrow> \<forall>c \<in> set b. c = CHR ''/''"
proof (induction b)
  case Nil
  show ?case by simp
next
  case (Cons x b)
  have ne: "py_split CHR ''/'' b \<noteq> []" by (rule py_split_not_Nil)
  then obtain y ys where y: "py_split CHR ''/'' b = y # ys"
    by (cases "py_split CHR ''/'' b") auto
  from Cons.prems y have x: "x = CHR ''/''"
    by (auto simp: Let_def split: if_splits)
  with Cons.prems have "filter (\<lambda>c. c \<noteq> []) (py_split CHR ''/'' b) = []"
    by (simp add: Let_def)
  from Cons.IH [OF this] x show ?case by simp
qed

text \<open>
  A walk that goes on below a path has found a directory at that path.
\<close>

lemma namei_parent:
  assumes nm: "namei fs (a @ ''/'' @ b) = Inr q" and a: "a \<noteq> []"
    and b: "\<exists>c \<in> set b. c \<noteq> CHR ''/''"
  shows "\<exists>p. namei fs a = Inr p \<and> lookup fs p = Some Dir \<and>
     walk fs p (py_split CHR ''/'' b) = Inr q"
proof -
  have sp: "py_split CHR ''/'' (a @ CHR ''/'' # b) = py_split CHR ''/'' a @ py_split CHR ''/'' b"
    by (rule py_split_append)
  from nm a have "walk fs (start_dir a) (py_split CHR ''/'' a @ py_split CHR ''/'' b) = Inr q"
    by (simp add: namei_def sp start_dir_append)
  then obtain p where p: "walk fs (start_dir a) (py_split CHR ''/'' a) = Inr p"
    and w: "walk fs p (py_split CHR ''/'' b) = Inr q"
    by (auto simp: walk_append split: sum.splits)
  have "filter (\<lambda>c. c \<noteq> []) (py_split CHR ''/'' b) \<noteq> []"
    using comps_nonempty [of b] b by blast
  from walk_checks_start [OF w this] have "lookup fs p = Some Dir" .
  with p w a show ?thesis by (simp add: namei_def)
qed

lemma last_component_child:
  assumes "c \<noteq> []" "CHR ''/'' \<notin> set c"
  shows "last_component (a @ ''/'' @ c) = c"
proof -
  have "py_split CHR ''/'' (a @ CHR ''/'' # c) = py_split CHR ''/'' a @ [c]"
    using assms(2) by (simp add: py_split_append py_split_no_sep)
  then show ?thesis using assms(1) by (simp add: last_component_def Let_def)
qed

lemma file_base_plain:
  assumes "CHR ''/'' \<notin> set file_prefix"
  shows "file_base_of file_prefix now (after_last_slash name) \<noteq> [] \<and>
     file_base_of file_prefix now (after_last_slash name) \<noteq> ''.'' \<and>
     file_base_of file_prefix now (after_last_slash name) \<noteq> ''..'' \<and>
     CHR ''/'' \<notin> set (file_base_of file_prefix now (after_last_slash name))"
proof -
  define x where "x = file_base_of file_prefix now (after_last_slash name)"
  have len: "length x \<ge> 17"
    by (simp add: x_def file_base_of_def strftime_length)
  have 1: "x \<noteq> []" using len by auto
  have 2: "x \<noteq> ''.''"
  proof
    assume "x = ''.''"
    then have "length x = 1" by simp
    with len show False by simp
  qed
  have 3: "x \<noteq> ''..''"
  proof
    assume "x = ''..''"
    then have "length x = 2" by simp
    with len show False by simp
  qed
  from 1 2 3 have "file_base_of file_prefix now (after_last_slash name) \<noteq> [] \<and>
     file_base_of file_prefix now (after_last_slash name) \<noteq> ''.'' \<and>
     file_base_of file_prefix now (after_last_slash name) \<noteq> ''..''"
    unfolding x_def by simp
  moreover have "CHR ''/'' \<notin> set (file_base_of file_prefix now (after_last_slash name))"
    using assms by (simp add: file_base_of_def strftime_no_slash after_last_slash_no_slash)
  ultimately show ?thesis by simp
qed

lemma open_w_close_Return:
  "open_w_close fs s = (Return u, fs') \<Longrightarrow>
     namei fs s = Inr (resolve s) \<and> last s \<noteq> CHR ''/'' \<and>
     lookup fs (resolve s) \<noteq> Some Dir \<and> fs' = fs_put (resolve s) (File []) fs"
  by (auto simp: open_w_close_def split: sum.splits if_splits option.splits node.splits
      dest!: namei_resolve)

lemma process_Return:
  assumes "PrepareDirectories_process file_prefix now item fs = (Return u, item', fs')"
  shows "\<exists>name dd fs1.
     item ''item_name'' = Some name \<and> item ''data_dir'' = Some dd \<and>
     prepare_workdir fs (dd @ ''/'' @ after_last_slash name) = (Return (), fs1) \<and>
     open_w_close fs1 ((dd @ ''/'' @ after_last_slash name) @ ''/'' @
        file_base_of file_prefix now (after_last_slash name)) = (Return (), fs') \<and>
     item' ''item_dir'' = Some (dd @ ''/'' @ after_last_slash name) \<and>
     item' ''file_base'' = Some (file_base_of file_prefix now (after_last_slash name))"
proof -
  obtain name where n: "item ''item_name'' = Some name"
    using assms by (cases "item ''item_name''") (simp_all add: PrepareDirectories_process_def)
  have a: "py_in ''-'' name \<and> py_in ''.'' name \<and> py_in ''/'' name \<and> py_in ''http://'' name"
  proof (rule ccontr)
    assume "\<not> ?thesis"
    then have "fst (PrepareDirectories_process file_prefix now item fs) = Raise AssertionError"
      using n by (auto simp: PrepareDirectories_process_def)
    with assms show False by simp
  qed
  obtain dd where d: "item ''data_dir'' = Some dd"
    using assms n a
    by (cases "item ''data_dir''") (simp_all add: PrepareDirectories_process_def file_id_of_eq)
  define w where "w = dd @ ''/'' @ after_last_slash name"
  define b where "b = file_base_of file_prefix now (after_last_slash name)"
  obtain r1 fs1 where pw: "prepare_workdir fs w = (r1, fs1)"
    by (cases "prepare_workdir fs w")
  obtain r2 fs2 where ow: "open_w_close fs1 (w @ ''/'' @ b) = (r2, fs2)"
    by (cases "open_w_close fs1 (w @ ''/'' @ b)")
  have r1: "r1 = Return ()"
    using assms n a d pw
    by (cases r1) (simp_all add: PrepareDirectories_process_def file_id_of_eq dirname_of_def
        w_def)
  have rest: "r2 = Return () \<and> fs2 = fs' \<and>
      item' = item(''item_dir'' \<mapsto> w, ''file_id'' \<mapsto> after_last_slash name, ''file_base'' \<mapsto> b)"
    using assms n a d pw ow r1
    by (simp add: PrepareDirectories_process_def file_id_of_eq dirname_of_def Let_def
        interp2_def w_def b_def)
  have "item ''item_name'' = Some name \<and> item ''data_dir'' = Some dd \<and>
     prepare_workdir fs w = (Return (), fs1) \<and>
     open_w_close fs1 (w @ ''/'' @ b) = (Return (), fs') \<and>
     item' ''item_dir'' = Some w \<and> item' ''file_base'' = Some b"
    using n d pw ow r1 rest by simp
  then show ?thesis unfolding w_def b_def by (intro exI)
qed




section \<open>Naming\<close>

lemma of_char_digit: "of_char (digit n) = (48 + n mod 10 :: nat)"
proof -
  have "n mod 10 < 10" by simp
  then have "(48 + n mod 10) mod 256 = 48 + n mod 10" by simp
  then show ?thesis by (simp add: digit_def of_char_of)
qed

lemma is_digit_digit: "is_digit (digit n)"
proof -
  have "n mod 10 < 10" by simp
  then show ?thesis by (simp add: is_digit_def of_char_digit)
qed

lemma int_of_digits2: "n < 100 \<Longrightarrow> int_of_digits (digits2 n) = n"
proof -
  assume "n < 100"
  then have "n div 10 < 10" by simp
  then have "n div 10 mod 10 = n div 10" by simp
  then show ?thesis by (simp add: int_of_digits_def digits2_def of_char_digit)
qed

lemma int_of_digits4: "n < 10000 \<Longrightarrow> int_of_digits (digits4 n) = n"
proof -
  assume n: "n < 10000"
  then have "n div 1000 < 10" by simp
  then have a: "n div 1000 mod 10 = n div 1000" by simp
  have b: "n div 100 = 10 * (n div 1000) + n div 100 mod 10"
    using div_mult2_eq [of n 100 10] by simp
  have c: "n div 10 = 10 * (n div 100) + n div 10 mod 10"
    using div_mult2_eq [of n 10 10] by simp
  have d: "n = 10 * (n div 10) + n mod 10" by simp
  have "10 * (10 * (10 * (n div 1000) + n div 100 mod 10) + n div 10 mod 10) + n mod 10 = n"
    using b c d by simp
  then show ?thesis by (simp add: int_of_digits_def digits4_def of_char_digit a)
qed

text \<open>
  The timestamp has the form \<open>YYYYMMDD-HHMMSS\<close>: fifteen characters, a \<open>-\<close> in the
  ninth place and digits elsewhere, which read as decimal numbers are the fields of the
  local time.
\<close>

lemma strftime_format:
  "length (strftime_Ymd_HMS t) = 15 \<and> strftime_Ymd_HMS t ! 8 = CHR ''-'' \<and>
   list_all is_digit (take 8 (strftime_Ymd_HMS t)) \<and>
   list_all is_digit (drop 9 (strftime_Ymd_HMS t)) \<and>
   (tm_year t < 10000 \<longrightarrow> int_of_digits (take 4 (strftime_Ymd_HMS t)) = tm_year t) \<and>
   (tm_mon t < 100 \<longrightarrow> int_of_digits (take 2 (drop 4 (strftime_Ymd_HMS t))) = tm_mon t) \<and>
   (tm_mday t < 100 \<longrightarrow> int_of_digits (take 2 (drop 6 (strftime_Ymd_HMS t))) = tm_mday t) \<and>
   (tm_hour t < 100 \<longrightarrow> int_of_digits (take 2 (drop 9 (strftime_Ymd_HMS t))) = tm_hour t) \<and>
   (tm_min t < 100 \<longrightarrow> int_of_digits (take 2 (drop 11 (strftime_Ymd_HMS t))) = tm_min t) \<and>
   (tm_sec t < 100 \<longrightarrow> int_of_digits (take 2 (drop 13 (strftime_Ymd_HMS t))) = tm_sec t)"
proof -
  have s: "strftime_Ymd_HMS t =
      digits4 (tm_year t) @ digits2 (tm_mon t) @ digits2 (tm_mday t) @ ''-'' @
      digits2 (tm_hour t) @ digits2 (tm_min t) @ digits2 (tm_sec t)"
    by (simp add: strftime_Ymd_HMS_def)
  have l4: "length (digits4 n) = 4" and l2: "length (digits2 n) = 2" for n
    by (simp_all add: digits4_def digits2_def)
  have d4: "list_all is_digit (digits4 n)" and d2: "list_all is_digit (digits2 n)" for n
    by (simp_all add: digits4_def digits2_def is_digit_digit)
  have 1: "length (strftime_Ymd_HMS t) = 15" by (rule strftime_length)
  have 2: "strftime_Ymd_HMS t ! 8 = CHR ''-''"
    unfolding s by (simp add: nth_append l4 l2)
  have t8: "take 8 (strftime_Ymd_HMS t) =
      digits4 (tm_year t) @ digits2 (tm_mon t) @ digits2 (tm_mday t)"
    unfolding s by (simp add: l4 l2)
  have d9: "drop 9 (strftime_Ymd_HMS t) =
      digits2 (tm_hour t) @ digits2 (tm_min t) @ digits2 (tm_sec t)"
    unfolding s by (simp add: l4 l2)
  have 3: "list_all is_digit (take 8 (strftime_Ymd_HMS t))"
    unfolding t8 by (simp add: d4 d2)
  have 4: "list_all is_digit (drop 9 (strftime_Ymd_HMS t))"
    unfolding d9 by (simp add: d2)
  have y: "take 4 (strftime_Ymd_HMS t) = digits4 (tm_year t)"
    unfolding s by (simp add: l4)
  have mo: "take 2 (drop 4 (strftime_Ymd_HMS t)) = digits2 (tm_mon t)"
    unfolding s by (simp add: l4 l2)
  have da: "take 2 (drop 6 (strftime_Ymd_HMS t)) = digits2 (tm_mday t)"
    unfolding s by (simp add: l4 l2)
  have ho: "take 2 (drop 9 (strftime_Ymd_HMS t)) = digits2 (tm_hour t)"
    unfolding s by (simp add: l4 l2)
  have mi: "take 2 (drop 11 (strftime_Ymd_HMS t)) = digits2 (tm_min t)"
    unfolding s by (simp add: l4 l2)
  have se: "take 2 (drop 13 (strftime_Ymd_HMS t)) = digits2 (tm_sec t)"
    unfolding s by (simp add: l4 l2)
  show ?thesis
    unfolding y mo da ho mi se
    using 1 2 3 4 by (simp add: int_of_digits2 int_of_digits4)
qed

lemma file_base_has_dash:
  "\<exists>c \<in> set (file_base_of file_prefix now file_id). c \<noteq> CHR ''/''"
proof -
  have "CHR ''-'' \<in> set (file_base_of file_prefix now file_id)"
    by (simp add: file_base_of_def)
  then show ?thesis by (rule bexI [rotated]) simp
qed

text \<open>
  C2: whenever directory preparation returns, the item name passed the validation, the
  file id is the substring of the item name after its last \<open>/\<close>, the file base is
  prefix, timestamp and file id joined by \<open>-\<close>, the working directory is the data
  directory, \<open>/\<close> and the file id, and a directory exists at that path. The timestamp
  has the form \<open>YYYYMMDD-HHMMSS\<close>: fifteen characters, a \<open>-\<close> in the ninth place and
  digits elsewhere, and the digit groups read as decimal numbers are the year (of a year
  below 10000), the month, the day, the hour, the minute and the second of the local
  time.
\<close>

theorem directory_naming:
  assumes "PrepareDirectories_process file_prefix now item fs = (Return (), item', fs')"
  shows "\<exists>item_name data_dir ts.
     item ''item_name'' = Some item_name \<and> item ''data_dir'' = Some data_dir \<and>
     asserts_pass item_name \<and>
     item' ''file_id'' = Some (after_last_slash item_name) \<and>
     item' ''file_base'' =
       Some (file_prefix @ ''-'' @ ts @ ''-'' @ after_last_slash item_name) \<and>
     item' ''item_dir'' = Some (data_dir @ ''/'' @ after_last_slash item_name) \<and>
     os_path_isdir fs' (data_dir @ ''/'' @ after_last_slash item_name) \<and>
     length ts = 15 \<and> ts ! 8 = CHR ''-'' \<and>
     list_all is_digit (take 8 ts) \<and> list_all is_digit (drop 9 ts) \<and>
     (tm_year now < 10000 \<longrightarrow> int_of_digits (take 4 ts) = tm_year now) \<and>
     (tm_mon now < 100 \<longrightarrow> int_of_digits (take 2 (drop 4 ts)) = tm_mon now) \<and>
     (tm_mday now < 100 \<longrightarrow> int_of_digits (take 2 (drop 6 ts)) = tm_mday now) \<and>
     (tm_hour now < 100 \<longrightarrow> int_of_digits (take 2 (drop 9 ts)) = tm_hour now) \<and>
     (tm_min now < 100 \<longrightarrow> int_of_digits (take 2 (drop 11 ts)) = tm_min now) \<and>
     (tm_sec now < 100 \<longrightarrow> int_of_digits (take 2 (drop 13 ts)) = tm_sec now)"
proof -
  from process_Return [OF assms] obtain name dd fs1 where
    n: "item ''item_name'' = Some name" and d: "item ''data_dir'' = Some dd" and
    pw: "prepare_workdir fs (dd @ ''/'' @ after_last_slash name) = (Return (), fs1)" and
    op: "open_w_close fs1 ((dd @ ''/'' @ after_last_slash name) @ ''/'' @
        file_base_of file_prefix now (after_last_slash name)) = (Return (), fs')" and
    wd: "item' ''item_dir'' = Some (dd @ ''/'' @ after_last_slash name)" and
    fb: "item' ''file_base'' = Some (file_base_of file_prefix now (after_last_slash name))"
    by blast
  have a: "asserts_pass name"
  proof (rule ccontr)
    assume "\<not> asserts_pass name"
    then have "fst (PrepareDirectories_process file_prefix now item fs) = Raise AssertionError"
      using n by (auto simp: PrepareDirectories_process_def asserts_pass_def)
    with assms show False by simp
  qed
  have fid: "item' ''file_id'' = Some (after_last_slash name)"
    using assms n d a
    by (auto simp: PrepareDirectories_process_def file_id_of_eq asserts_pass_def Let_def
        split: prod.splits exec.splits sum.splits)
  define w where "w = dd @ ''/'' @ after_last_slash name"
  define b where "b = file_base_of file_prefix now (after_last_slash name)"
  have wne: "w \<noteq> []" by (simp add: w_def)
  from open_w_close_Return [OF op]
  have nm: "namei fs1 (w @ ''/'' @ b) = Inr (resolve (w @ ''/'' @ b))"
    and nd: "lookup fs1 (resolve (w @ ''/'' @ b)) \<noteq> Some Dir"
    and fs': "fs' = fs_put (resolve (w @ ''/'' @ b)) (File []) fs1"
    unfolding w_def b_def by simp_all
  have "\<exists>c \<in> set b. c \<noteq> CHR ''/''"
    unfolding b_def by (rule file_base_has_dash)
  with namei_parent [OF nm wne]
  obtain p where p: "namei fs1 w = Inr p" and pd: "lookup fs1 p = Some Dir"
    by blast
  have keep: "lookup fs' x = Some Dir" if "lookup fs1 x = Some Dir" for x
    using that nd by (auto simp: fs' lookup_fs_put)
  have "namei fs' w = Inr p"
    using p by (rule namei_mono [rotated]) (rule keep)
  moreover have "lookup fs' p = Some Dir" by (rule keep) (rule pd)
  moreover have "p = resolve w" using p by (auto dest: namei_resolve)
  ultimately have isdir: "os_path_isdir fs' w"
    by (simp add: os_path_isdir_iff)
  note ts = strftime_format [of now]
  have "item ''item_name'' = Some name \<and> item ''data_dir'' = Some dd \<and>
     asserts_pass name \<and>
     item' ''file_id'' = Some (after_last_slash name) \<and>
     item' ''file_base'' =
       Some (file_prefix @ ''-'' @ strftime_Ymd_HMS now @ ''-'' @ after_last_slash name) \<and>
     item' ''item_dir'' = Some (dd @ ''/'' @ after_last_slash name) \<and>
     os_path_isdir fs' (dd @ ''/'' @ after_last_slash name)"
    using n d a fid fb wd isdir unfolding w_def by (simp add: file_base_of_def)
  with ts have "item ''item_name'' = Some name \<and> item ''data_dir'' = Some dd \<and>
     asserts_pass name \<and>
     item' ''file_id'' = Some (after_last_slash name) \<and>
     item' ''file_base'' =
       Some (file_prefix @ ''-'' @ strftime_Ymd_HMS now @ ''-'' @ after_last_slash name) \<and>
     item' ''item_dir'' = Some (dd @ ''/'' @ after_last_slash name) \<and>
     os_path_isdir fs' (dd @ ''/'' @ after_last_slash name) \<and>
     length (strftime_Ymd_HMS now) = 15 \<and> strftime_Ymd_HMS now ! 8 = CHR ''-'' \<and>
     list_all is_digit (take 8 (strftime_Ymd_HMS now)) \<and>
     list_all is_digit (drop 9 (strftime_Ymd_HMS now)) \<and>
     (tm_year now < 10000 \<longrightarrow> int_of_digits (take 4 (strftime_Ymd_HMS now)) = tm_year now) \<and>
     (tm_mon now < 100 \<longrightarrow>
        int_of_digits (take 2 (drop 4 (strftime_Ymd_HMS now))) = tm_mon now) \<and>
     (tm_mday now < 100 \<longrightarrow>
        int_of_digits (take 2 (drop 6 (strftime_Ymd_HMS now))) = tm_mday now) \<and>
     (tm_hour now < 100 \<longrightarrow>
        int_of_digits (take 2 (drop 9 (strftime_Ymd_HMS now))) = tm_hour now) \<and>
     (tm_min now < 100 \<longrightarrow>
        int_of_digits (take 2 (drop 11 (strftime_Ymd_HMS now))) = tm_min now) \<and>
     (tm_sec now < 100 \<longrightarrow>
        int_of_digits (take 2 (drop 13 (strftime_Ymd_HMS now))) = tm_sec now)"
    by (intro conjI) (elim conjE, assumption)+
  then show ?thesis by (intro exI)
qed

text \<open>
  The example of the specification: the item \<open>http://blip.tv/example-show/ep-1.flv\<close>,
  prefix \<open>bliptv\<close>, at 2013-10-11 12:00:00, data directory \<open>data\<close>, on an empty file
  system.
\<close>

theorem directory_naming_witness:
  "fst (PrepareDirectories_process ''bliptv'' example_time example_item []) = Return () \<and>
   tm_year example_time < 10000 \<and> tm_mon example_time < 100 \<and> tm_mday example_time < 100 \<and>
   tm_hour example_time < 100 \<and> tm_min example_time < 100 \<and> tm_sec example_time < 100 \<and>
   fst (snd (PrepareDirectories_process ''bliptv'' example_time example_item [])) ''file_id'' =
     Some ''ep-1.flv'' \<and>
   fst (snd (PrepareDirectories_process ''bliptv'' example_time example_item [])) ''file_base'' =
     Some ''bliptv-20131011-120000-ep-1.flv'' \<and>
   fst (snd (PrepareDirectories_process ''bliptv'' example_time example_item [])) ''item_dir'' =
     Some ''data/ep-1.flv'' \<and>
   os_path_isdir (snd (snd (PrepareDirectories_process ''bliptv'' example_time example_item [])))
     ''data/ep-1.flv'' \<and>
   int_of_digits (take 4 ''20131011-120000'') = tm_year example_time \<and>
   int_of_digits (take 2 (drop 4 ''20131011-120000'')) = tm_mon example_time \<and>
   int_of_digits (take 2 (drop 6 ''20131011-120000'')) = tm_mday example_time \<and>
   int_of_digits (take 2 (drop 9 ''20131011-120000'')) = tm_hour example_time \<and>
   int_of_digits (take 2 (drop 11 ''20131011-120000'')) = tm_min example_time \<and>
   int_of_digits (take 2 (drop 13 ''20131011-120000'')) = tm_sec example_time"
proof -
  define R where "R = PrepareDirectories_process ''bliptv'' example_time example_item []"
  have r: "fst R = Return ()"
    unfolding R_def by code_simp
  then have eq: "PrepareDirectories_process ''bliptv'' example_time example_item [] =
      (Return (), fst (snd R), snd (snd R))"
    unfolding R_def by (metis prod.collapse)
  have rng: "tm_year example_time < 10000" "tm_mon example_time < 100"
    "tm_mday example_time < 100" "tm_hour example_time < 100" "tm_min example_time < 100"
    "tm_sec example_time < 100"
    by (simp_all add: example_time_def)
  have fbv: "fst (snd R) ''file_base'' = Some ''bliptv-20131011-120000-ep-1.flv''"
    unfolding R_def by code_simp
  have fid: "after_last_slash ''http://blip.tv/example-show/ep-1.flv'' = ''ep-1.flv''"
    by code_simp
  from directory_naming [OF eq] obtain item_name data_dir ts where
    n: "example_item ''item_name'' = Some item_name" and
    d: "example_item ''data_dir'' = Some data_dir" and
    i: "fst (snd R) ''file_id'' = Some (after_last_slash item_name)" and
    b: "fst (snd R) ''file_base'' =
          Some (''bliptv'' @ ''-'' @ ts @ ''-'' @ after_last_slash item_name)" and
    w: "fst (snd R) ''item_dir'' = Some (data_dir @ ''/'' @ after_last_slash item_name)" and
    o: "os_path_isdir (snd (snd R)) (data_dir @ ''/'' @ after_last_slash item_name)" and
    l: "length ts = 15" and
    y: "tm_year example_time < 10000 \<longrightarrow> int_of_digits (take 4 ts) = tm_year example_time" and
    mo: "tm_mon example_time < 100 \<longrightarrow>
          int_of_digits (take 2 (drop 4 ts)) = tm_mon example_time" and
    da: "tm_mday example_time < 100 \<longrightarrow>
          int_of_digits (take 2 (drop 6 ts)) = tm_mday example_time" and
    ho: "tm_hour example_time < 100 \<longrightarrow>
          int_of_digits (take 2 (drop 9 ts)) = tm_hour example_time" and
    mi: "tm_min example_time < 100 \<longrightarrow>
          int_of_digits (take 2 (drop 11 ts)) = tm_min example_time" and
    se: "tm_sec example_time < 100 \<longrightarrow>
          int_of_digits (take 2 (drop 13 ts)) = tm_sec example_time"
    by blast
  from n have name: "item_name = ''http://blip.tv/example-show/ep-1.flv''"
    by (simp add: example_item_def)
  from d have dd: "data_dir = ''data''" by (simp add: example_item_def)
  from b fbv have "''bliptv-'' @ ts @ ''-ep-1.flv'' = ''bliptv-'' @ ''20131011-120000'' @ ''-ep-1.flv''"
    unfolding name fid by simp
  then have ts: "ts = ''20131011-120000''" by simp
  show ?thesis
    using r rng i fbv w o y mo da ho mi se
    unfolding R_def [symmetric] name dd fid ts by simp
qed

section \<open>MoveFiles\<close>

lemma os_rename_raises_unchanged:
  "os_rename fs src dst = (Raise e, fs') \<Longrightarrow> fs' = fs \<and> (\<exists>n. e = OSError n)"
  by (auto simp: os_rename_def split: sum.splits if_splits option.splits node.splits)

lemma os_rename_absent:
  assumes "\<not> os_path_exists fs src"
  shows "\<exists>n. os_rename fs src dst = (Raise (OSError n), fs)"
proof -
  obtain r fs' where r: "os_rename fs src dst = (r, fs')" by (cases "os_rename fs src dst")
  have "r \<noteq> Return ()"
  proof
    assume "r = Return ()"
    with r have "os_rename fs src dst = (Return (), fs')" by simp
    then have "\<exists>n. stat fs src = Inr n"
      by (auto simp: os_rename_def stat_def
          split: sum.splits if_splits option.splits node.splits)
    with assms show False by (auto simp: os_path_exists_def)
  qed
  then obtain e where "r = Raise e" by (cases r) auto
  with r os_rename_raises_unchanged [of fs src dst e fs'] show ?thesis by auto
qed

lemma os_rename_ENOENT:
  assumes src: "stat fs src = Inl ENOENT"
    and dst: "namei fs dst = Inr q"
    and pl: "plain_name (last_component src)" "plain_name (last_component dst)"
  shows "os_rename fs src dst = (Raise (OSError ENOENT), fs)"
  using assms
  by (auto simp: os_rename_def stat_def split: sum.splits if_splits option.splits node.splits)

lemma os_rename_file:
  assumes src: "namei fs src = Inr p" "lookup fs p = Some (File c)" "last src \<noteq> CHR ''/''"
    and dst: "namei fs dst = Inr q" "lookup fs q \<noteq> Some Dir" "last dst \<noteq> CHR ''/''"
    and pl: "plain_name (last_component src)" "plain_name (last_component dst)"
    and ne: "p \<noteq> q"
  shows "os_rename fs src dst =
     (Return (), fs_put q (File c) (fs_filter (\<lambda>r. r \<noteq> p) fs))"
  using assms by (simp add: os_rename_def)

text \<open>The fields of the item as directory preparation leaves them.\<close>

lemma prepared_fields:
  assumes "PrepareDirectories_process file_prefix now item0 fs0 = (Return (), item, fs1)"
  shows "\<exists>name dd.
     item0 ''item_name'' = Some name \<and>
     item ''data_dir'' = Some dd \<and>
     item ''item_dir'' = Some (dd @ ''/'' @ after_last_slash name) \<and>
     item ''file_base'' = Some (file_base_of file_prefix now (after_last_slash name))"
proof -
  from process_Return [OF assms] obtain name dd fs2 where
    n: "item0 ''item_name'' = Some name" and d: "item0 ''data_dir'' = Some dd" and
    pw: "prepare_workdir fs0 (dd @ ''/'' @ after_last_slash name) = (Return (), fs2)" and
    wd: "item ''item_dir'' = Some (dd @ ''/'' @ after_last_slash name)" and
    fb: "item ''file_base'' = Some (file_base_of file_prefix now (after_last_slash name))"
    by blast
  have a: "py_in ''-'' name \<and> py_in ''.'' name \<and> py_in ''/'' name \<and> py_in ''http://'' name"
  proof (rule ccontr)
    assume "\<not> ?thesis"
    then have "fst (PrepareDirectories_process file_prefix now item0 fs0) = Raise AssertionError"
      using n by (auto simp: PrepareDirectories_process_def)
    with assms show False by simp
  qed
  have "item ''data_dir'' = item0 ''data_dir''"
    using assms n d a pw
    by (auto simp: PrepareDirectories_process_def file_id_of_eq dirname_of_def Let_def
        interp2_def split: prod.splits)
  with n d wd fb show ?thesis by simp
qed

lemma file_base_not_file_id: "file_base_of file_prefix now file_id \<noteq> file_id"
proof
  assume "file_base_of file_prefix now file_id = file_id"
  then have "length (file_base_of file_prefix now file_id) = length file_id" by simp
  then show False by (simp add: file_base_of_def)
qed

lemma namei_sibling:
  assumes nm: "namei fs (a @ ''/'' @ c) = Inr p" and c: "plain_name c" "CHR ''/'' \<notin> set c"
  shows "\<exists>d. p = d @ [c] \<and> lookup fs d = Some Dir \<and>
     (\<forall>b. plain_name b \<and> CHR ''/'' \<notin> set b \<longrightarrow> namei fs (a @ ''/'' @ b) = Inr (d @ [b]))"
proof -
  have sp: "py_split CHR ''/'' (a @ CHR ''/'' # x) = py_split CHR ''/'' a @ [x]"
    if "CHR ''/'' \<notin> set x" for x
    using that by (simp add: py_split_append py_split_no_sep)
  have st: "start_dir (a @ CHR ''/'' # x) = start_dir (a @ ''/'')" for x
    by (cases a) (simp_all add: start_dir_def)
  from nm have "walk fs (start_dir (a @ ''/'')) (py_split CHR ''/'' a @ [c]) = Inr p"
    using sp [OF c(2)] st [of c] by (simp add: namei_def)
  from walk_snoc_plain [OF this c(1)] obtain d where
    d: "walk fs (start_dir (a @ ''/'')) (py_split CHR ''/'' a) = Inr d"
      "lookup fs d = Some Dir" "p = d @ [c]" by blast
  have "namei fs (a @ ''/'' @ b) = Inr (d @ [b])" if "plain_name b" "CHR ''/'' \<notin> set b" for b
    using d(1,2) that sp [OF that(2)] st [of b]
    by (simp add: namei_def walk_append plain_name_def step_component_plain)
  with d(2,3) show ?thesis by blast
qed

text \<open>
  C3, as the specification states it, fails for an item name that ends in \<open>/\<close>, such
  as \<open>http://blip.tv/a-b.c/\<close>: the file id is empty, the working directory is
  \<open>data/\<close>, the data directory itself, and the artifact \<open>data//bliptv-...-\<close> is
  already at its target. \<^verbatim>\<open>MoveFiles.process\<close> renames it to itself, removes the
  working directory with all it holds, and returns: the artifact and the data directory
  are gone.
\<close>

theorem move_files_counterexample:
  "asserts_pass ''http://blip.tv/a-b.c/'' \<and>
   fst (PrepareDirectories_process ''bliptv'' example_time slash_item []) = Return () \<and>
   fst (snd (PrepareDirectories_process ''bliptv'' example_time slash_item [])) ''item_dir'' =
     Some ''data/'' \<and>
   fst (snd (PrepareDirectories_process ''bliptv'' example_time slash_item [])) ''file_base'' =
     Some ''bliptv-20131011-120000-'' \<and>
   stat (snd (snd (PrepareDirectories_process ''bliptv'' example_time slash_item [])))
     ''data//bliptv-20131011-120000-'' = Inr (File []) \<and>
   MoveFiles_process
     (fst (snd (PrepareDirectories_process ''bliptv'' example_time slash_item [])))
     (snd (snd (PrepareDirectories_process ''bliptv'' example_time slash_item []))) =
     (Return (), []) \<and>
   stat [] ''data/bliptv-20131011-120000-'' = Inl ENOENT \<and>
   \<not> os_path_isdir [] ''data''"
  by code_simp

text \<open>
  C3, amended: for an item as directory preparation leaves it, when the file id (the
  part of the item name after its last \<open>/\<close>) is a plain name and the prefix holds no
  \<open>/\<close>, and for any state of the file system. When nothing is at the artifact's path
  \<open>item_dir/file_base\<close>, \<^verbatim>\<open>MoveFiles.process\<close> raises the error of the rename and
  the file system is exactly as before: nothing in the data directory is created or
  changed and the working directory is not removed; the error is ENOENT when the data
  directory exists. When the artifact is a regular file and no directory is in its way
  at \<open>data_dir/file_base\<close>, the call returns, the artifact is at the target with its
  contents, the working directory and everything below it are gone, and every other path
  is as before.
\<close>

theorem move_files:
  assumes prep: "PrepareDirectories_process file_prefix now item0 fs0 = (Return (), item, fs1)"
    and name: "item0 ''item_name'' = Some name"
    and fid: "plain_name (after_last_slash name)"
    and pre: "CHR ''/'' \<notin> set file_prefix"
  shows "\<exists>wd fb dd.
     item ''item_dir'' = Some wd \<and> item ''file_base'' = Some fb \<and>
     item ''data_dir'' = Some dd \<and>
     (\<not> os_path_exists fs (wd @ ''/'' @ fb) \<longrightarrow>
        (\<exists>n. MoveFiles_process item fs = (Raise (OSError n), fs))) \<and>
     (stat fs (wd @ ''/'' @ fb) = Inl ENOENT \<and> os_path_isdir fs dd \<longrightarrow>
        MoveFiles_process item fs = (Raise (OSError ENOENT), fs)) \<and>
     (stat fs (wd @ ''/'' @ fb) = Inr (File c) \<and> \<not> os_path_isdir fs (dd @ ''/'' @ fb) \<longrightarrow>
        (\<exists>fs'. MoveFiles_process item fs = (Return (), fs') \<and>
           lookup fs' (resolve (dd @ ''/'' @ fb)) = Some (File c) \<and>
           (\<forall>q. prefix (resolve wd) q \<longrightarrow> lookup fs' q = None) \<and>
           (\<forall>q. \<not> prefix (resolve wd) q \<and> q \<noteq> resolve (dd @ ''/'' @ fb) \<longrightarrow>
              lookup fs' q = lookup fs q)))"
proof -
  from prepared_fields [OF prep] name obtain dd where
    kd: "item ''data_dir'' = Some dd" and
    kw: "item ''item_dir'' = Some (dd @ ''/'' @ after_last_slash name)" and
    kb: "item ''file_base'' = Some (file_base_of file_prefix now (after_last_slash name))"
    by auto
  define i where "i = after_last_slash name"
  define wd where "wd = dd @ ''/'' @ i"
  define fb where "fb = file_base_of file_prefix now i"
  define src where "src = wd @ ''/'' @ fb"
  define dst where "dst = dd @ ''/'' @ fb"
  have ins: "CHR ''/'' \<notin> set i" unfolding i_def by (rule after_last_slash_no_slash)
  have ine: "i \<noteq> []" using fid by (simp add: plain_name_def i_def)
  have bp: "fb \<noteq> []" "fb \<noteq> ''.''" "fb \<noteq> ''..''" "CHR ''/'' \<notin> set fb"
    using file_base_plain [OF pre, of now name] unfolding fb_def i_def by simp_all
  then have bpl: "plain_name fb" by (simp add: plain_name_def)
  have bi: "fb \<noteq> i" unfolding fb_def by (rule file_base_not_file_id)
  have lsrc: "last_component src = fb" unfolding src_def using bp(1,4)
    by (rule last_component_child)
  have ldst: "last_component dst = fb" unfolding dst_def using bp(1,4)
    by (rule last_component_child)
  have lwd: "last_component wd = i" unfolding wd_def using ine ins
    by (rule last_component_child)
  have "last fb \<in> set fb" using bp(1) by (rule last_in_set)
  with bp(4) have lfb: "last fb \<noteq> CHR ''/''" by auto
  have tsrc: "last src \<noteq> CHR ''/''" using bp(1) lfb by (simp add: src_def)
  have tdst: "last dst \<noteq> CHR ''/''" using bp(1) lfb by (simp add: dst_def)
  have wne: "wd \<noteq> []" by (simp add: wd_def)
  have has_b: "\<exists>c \<in> set fb. c \<noteq> CHR ''/''" using bp(1,4) by (cases fb) auto
  have mf: "MoveFiles_process item fs =
      (case os_rename fs src dst of
         (Raise e, fs1) \<Rightarrow> (Raise e, fs1)
       | (Return u, fs1) \<Rightarrow> shutil_rmtree fs1 wd)"
    using kd kw kb
    by (simp add: MoveFiles_process_def interp2_def src_def dst_def wd_def fb_def i_def
        split: prod.splits exec.splits)
  have 1: "\<exists>n. MoveFiles_process item fs = (Raise (OSError n), fs)"
    if "\<not> os_path_exists fs src"
    using os_rename_absent [OF that, of dst] by (auto simp: mf)
  have 2: "MoveFiles_process item fs = (Raise (OSError ENOENT), fs)"
    if "stat fs src = Inl ENOENT" "os_path_isdir fs dd"
  proof -
    from that(2) have "namei fs dd = Inr (resolve dd)" "lookup fs (resolve dd) = Some Dir"
      by (simp_all add: os_path_isdir_iff)
    then have "namei fs dst = Inr (resolve dd @ [fb])"
      unfolding dst_def using bpl bp(4) by (rule namei_child)
    from os_rename_ENOENT [OF that(1) this] bpl
    have "os_rename fs src dst = (Raise (OSError ENOENT), fs)"
      by (simp add: lsrc ldst)
    then show ?thesis by (simp add: mf)
  qed
  have 3: "\<exists>fs'. MoveFiles_process item fs = (Return (), fs') \<and>
           lookup fs' (resolve dst) = Some (File c) \<and>
           (\<forall>q. prefix (resolve wd) q \<longrightarrow> lookup fs' q = None) \<and>
           (\<forall>q. \<not> prefix (resolve wd) q \<and> q \<noteq> resolve dst \<longrightarrow> lookup fs' q = lookup fs q)"
    if st: "stat fs src = Inr (File c)" and nd: "\<not> os_path_isdir fs dst"
  proof -
    from st obtain ps where ps: "namei fs src = Inr ps" and lps: "lookup fs ps = Some (File c)"
      by (auto simp: stat_def split: sum.splits option.splits node.splits if_splits)
    from namei_parent [OF ps [unfolded src_def] wne has_b]
    obtain pw where pw: "namei fs wd = Inr pw" and dw: "lookup fs pw = Some Dir"
      by blast
    have "namei fs src = Inr (pw @ [fb])"
      unfolding src_def using pw dw bpl bp(4) by (rule namei_child)
    with ps have ps_eq: "ps = pw @ [fb]" by simp
    from namei_sibling [OF pw [unfolded wd_def] fid [folded i_def] ins]
    obtain pd where pwd: "pw = pd @ [i]" and dpd: "lookup fs pd = Some Dir"
      and sib: "\<And>b. plain_name b \<Longrightarrow> CHR ''/'' \<notin> set b \<Longrightarrow>
        namei fs (dd @ ''/'' @ b) = Inr (pd @ [b])"
      by blast
    define q where "q = pd @ [fb]"
    have nq: "namei fs dst = Inr q"
      unfolding dst_def q_def using bpl bp(4) by (rule sib)
    then have rq: "resolve dst = q" by (auto dest: namei_resolve)
    have rw: "resolve wd = pw" using pw by (auto dest: namei_resolve)
    have lq: "lookup fs q \<noteq> Some Dir"
      using nd nq rq by (simp add: os_path_isdir_iff)
    have neq: "ps \<noteq> q" by (simp add: ps_eq q_def pwd)
    define fs2 where "fs2 = fs_put q (File c) (fs_filter (\<lambda>r. r \<noteq> ps) fs)"
    have rn: "os_rename fs src dst = (Return (), fs2)"
      unfolding fs2_def using ps lps tsrc nq lq tdst
      by (rule os_rename_file) (simp_all add: lsrc ldst bpl neq)
    have nfq: "\<not> fixed_dir q" unfolding q_def using bpl bp(4) by (rule snoc_plain_not_fixed)
    have nfw: "\<not> fixed_dir pw" unfolding pwd using fid [folded i_def] ins
      by (rule snoc_plain_not_fixed)
    have nfs: "\<not> fixed_dir ps" using lps by (auto simp: lookup_def split: if_splits)
    have keep: "lookup fs2 x = Some Dir" if "lookup fs x = Some Dir" for x
      using that lq lps by (auto simp: fs2_def lookup_fs_put lookup_fs_filter)
    have "namei fs2 wd = Inr pw"
      using pw by (rule namei_mono [rotated]) (rule keep)
    moreover have "lookup fs2 pw = Some Dir" by (rule keep) (rule dw)
    ultimately have isdir2: "os_path_isdir fs2 wd"
      by (simp add: os_path_isdir_iff rw)
    define fs3 where "fs3 = fs_filter (\<lambda>x. \<not> prefix pw x) fs2"
    have rm: "shutil_rmtree fs2 wd = (Return (), fs3)"
      using rmtree_isdir [OF isdir2] nfw fid
      by (simp add: rw fs3_def lwd plain_name_def i_def)
    have run: "MoveFiles_process item fs = (Return (), fs3)"
      by (simp add: mf rn rm)
    have out: "\<not> prefix pw q" using bi by (simp add: pwd q_def)
    have a: "lookup fs3 q = Some (File c)"
      using out nfq by (simp add: fs3_def fs2_def lookup_fs_filter lookup_fs_put)
    have b: "lookup fs3 x = None" if "prefix pw x" for x
      using that strict_prefix_not_fixed [OF nfw that] by (simp add: fs3_def lookup_fs_filter)
    have c: "lookup fs3 x = lookup fs x" if "\<not> prefix pw x" "x \<noteq> q" for x
    proof -
      have "x \<noteq> ps" using that(1) by (auto simp: ps_eq)
      with that show ?thesis
        by (simp add: fs3_def fs2_def lookup_fs_filter lookup_fs_put lookup_fixed)
    qed
    have "MoveFiles_process item fs = (Return (), fs3) \<and>
           lookup fs3 (resolve dst) = Some (File c) \<and>
           (\<forall>q. prefix (resolve wd) q \<longrightarrow> lookup fs3 q = None) \<and>
           (\<forall>q. \<not> prefix (resolve wd) q \<and> q \<noteq> resolve dst \<longrightarrow> lookup fs3 q = lookup fs q)"
      using run a b c unfolding rq rw by simp
    then show ?thesis by (rule exI)
  qed
  have "item ''item_dir'' = Some wd \<and> item ''file_base'' = Some fb \<and>
     item ''data_dir'' = Some dd \<and>
     (\<not> os_path_exists fs (wd @ ''/'' @ fb) \<longrightarrow>
        (\<exists>n. MoveFiles_process item fs = (Raise (OSError n), fs))) \<and>
     (stat fs (wd @ ''/'' @ fb) = Inl ENOENT \<and> os_path_isdir fs dd \<longrightarrow>
        MoveFiles_process item fs = (Raise (OSError ENOENT), fs)) \<and>
     (stat fs (wd @ ''/'' @ fb) = Inr (File c) \<and> \<not> os_path_isdir fs (dd @ ''/'' @ fb) \<longrightarrow>
        (\<exists>fs'. MoveFiles_process item fs = (Return (), fs') \<and>
           lookup fs' (resolve (dd @ ''/'' @ fb)) = Some (File c) \<and>
           (\<forall>q. prefix (resolve wd) q \<longrightarrow> lookup fs' q = None) \<and>
           (\<forall>q. \<not> prefix (resolve wd) q \<and> q \<noteq> resolve (dd @ ''/'' @ fb) \<longrightarrow>
              lookup fs' q = lookup fs q)))"
    using kd kw kb 1 2 3
    unfolding src_def [symmetric] dst_def [symmetric] wd_def [symmetric] fb_def [symmetric]
      i_def [symmetric]
    by (intro conjI impI) auto
  then show ?thesis by (intro exI)
qed

theorem move_files_witness:
  "fst (PrepareDirectories_process ''bliptv'' example_time example_item []) = Return () \<and>
   example_item ''item_name'' = Some ''http://blip.tv/example-show/ep-1.flv'' \<and>
   plain_name (after_last_slash ''http://blip.tv/example-show/ep-1.flv'') \<and>
   CHR ''/'' \<notin> set ''bliptv'' \<and>
   \<not> os_path_exists failed_fs ''data/ep-1.flv/bliptv-20131011-120000-ep-1.flv'' \<and>
   stat failed_fs ''data/ep-1.flv/bliptv-20131011-120000-ep-1.flv'' = Inl ENOENT \<and>
   os_path_isdir failed_fs ''data'' \<and>
   MoveFiles_process
     (fst (snd (PrepareDirectories_process ''bliptv'' example_time example_item []))) failed_fs =
     (Raise (OSError ENOENT), failed_fs) \<and>
   stat downloaded_fs ''data/ep-1.flv/bliptv-20131011-120000-ep-1.flv'' =
     Inr (File ''video'') \<and>
   \<not> os_path_isdir downloaded_fs ''data/bliptv-20131011-120000-ep-1.flv'' \<and>
   (\<exists>fs'. MoveFiles_process
        (fst (snd (PrepareDirectories_process ''bliptv'' example_time example_item [])))
        downloaded_fs = (Return (), fs') \<and>
      lookup fs' [''data'', ''bliptv-20131011-120000-ep-1.flv''] = Some (File ''video'') \<and>
      lookup fs' [''data'', ''ep-1.flv''] = None \<and>
      lookup fs' [''data'', ''ep-1.flv'', ''wget.log''] = None \<and>
      lookup fs' [''data''] = Some Dir)"
proof -
  define R where "R = PrepareDirectories_process ''bliptv'' example_time example_item []"
  define I where "I = fst (snd R)"
  have r: "fst R = Return ()"
    unfolding R_def by code_simp
  then have eq: "PrepareDirectories_process ''bliptv'' example_time example_item [] =
      (Return (), I, snd (snd R))"
    unfolding R_def I_def by (metis prod.collapse)
  have name: "example_item ''item_name'' = Some ''http://blip.tv/example-show/ep-1.flv''"
    by (simp add: example_item_def)
  have fid: "plain_name (after_last_slash ''http://blip.tv/example-show/ep-1.flv'')"
    by code_simp
  have pre: "CHR ''/'' \<notin> set ''bliptv''" by simp
  have k: "I ''item_dir'' = Some ''data/ep-1.flv''"
    "I ''file_base'' = Some ''bliptv-20131011-120000-ep-1.flv''"
    "I ''data_dir'' = Some ''data''"
    unfolding I_def R_def by code_simp+
  have a: "\<not> os_path_exists failed_fs ''data/ep-1.flv/bliptv-20131011-120000-ep-1.flv''"
    "stat failed_fs ''data/ep-1.flv/bliptv-20131011-120000-ep-1.flv'' = Inl ENOENT"
    "os_path_isdir failed_fs ''data''"
    by code_simp+
  have b: "stat downloaded_fs ''data/ep-1.flv/bliptv-20131011-120000-ep-1.flv'' =
      Inr (File ''video'')"
    "\<not> os_path_isdir downloaded_fs ''data/bliptv-20131011-120000-ep-1.flv''"
    by code_simp+
  have rs: "resolve ''data/ep-1.flv'' = [''data'', ''ep-1.flv'']"
    "resolve ''data/bliptv-20131011-120000-ep-1.flv'' =
       [''data'', ''bliptv-20131011-120000-ep-1.flv'']"
    by code_simp+
  have d: "lookup downloaded_fs [''data''] = Some Dir" by code_simp
  from move_files [OF eq name fid pre, of failed_fs "''video''"] k a
  have 1: "MoveFiles_process I failed_fs = (Raise (OSError ENOENT), failed_fs)"
    by auto
  from move_files [OF eq name fid pre, of downloaded_fs "''video''"] k b
  obtain fs' where ret: "MoveFiles_process I downloaded_fs = (Return (), fs')"
    and at: "lookup fs' (resolve ''data/bliptv-20131011-120000-ep-1.flv'') =
        Some (File ''video'')"
    and gone: "\<And>q. prefix (resolve ''data/ep-1.flv'') q \<Longrightarrow> lookup fs' q = None"
    and frame: "\<And>q. \<not> prefix (resolve ''data/ep-1.flv'') q \<Longrightarrow>
        q \<noteq> resolve ''data/bliptv-20131011-120000-ep-1.flv'' \<Longrightarrow>
        lookup fs' q = lookup downloaded_fs q"
    by auto
  have 2: "lookup fs' [''data'', ''bliptv-20131011-120000-ep-1.flv''] = Some (File ''video'')"
    using at unfolding rs .
  have 3: "lookup fs' [''data'', ''ep-1.flv''] = None"
    by (rule gone) (simp add: rs)
  have 4: "lookup fs' [''data'', ''ep-1.flv'', ''wget.log''] = None"
    by (rule gone) (simp add: rs)
  have 5: "lookup fs' [''data''] = Some Dir"
    using frame [of "[''data'']"] d unfolding rs by simp
  have "\<exists>fs'. MoveFiles_process I downloaded_fs = (Return (), fs') \<and>
      lookup fs' [''data'', ''bliptv-20131011-120000-ep-1.flv''] = Some (File ''video'') \<and>
      lookup fs' [''data'', ''ep-1.flv''] = None \<and>
      lookup fs' [''data'', ''ep-1.flv'', ''wget.log''] = None \<and>
      lookup fs' [''data''] = Some Dir"
    using ret 2 3 4 5 by blast
  with r name fid pre a 1 b show ?thesis
    unfolding I_def R_def by (intro conjI)
qed

section \<open>AsyncPopenFixed.run\<close>

lemmas stmt_defs = stmt_ioloop_def stmt_openpty_def stmt_nonblock_def stmt_master_fd_def
  stmt_master_def stmt_add_handler_def stmt_slave_def stmt_kwargs_def stmt_pipe_def
  stmt_stdin_def stmt_wait_callback_def stmt_start_def

lemma exec_trace_start: "st \<in> set (exec_trace fs st)"
  by (cases fs) simp_all

lemma exec_trace_append:
  "set (exec_trace (fs1 @ fs2) st) =
     set (exec_trace fs1 st) \<union>
     (case exec_stmts fs1 st of Inl e \<Rightarrow> {} | Inr st' \<Rightarrow> set (exec_trace fs2 st'))"
proof (induction fs1 arbitrary: st)
  case Nil
  show ?case using exec_trace_start [of st fs2] by auto
next
  case (Cons f fs1)
  show ?case
    by (cases "f st") (simp_all add: Cons.IH)
qed

lemma exec_stmts_append:
  "exec_stmts (fs1 @ fs2) st =
     (case exec_stmts fs1 st of Inl e \<Rightarrow> Inl e | Inr st' \<Rightarrow> exec_stmts fs2 st')"
proof (induction fs1 arbitrary: st)
  case Nil
  show ?case by simp
next
  case (Cons f fs1)
  show ?case
    by (cases "f st") (simp_all add: Cons.IH)
qed

lemma exec_trace_invariant:
  assumes "I st" and step: "\<And>f s s'. f \<in> set fs \<Longrightarrow> I s \<Longrightarrow> f s = Inr s' \<Longrightarrow> I s'"
    and "s \<in> set (exec_trace fs st)"
  shows "I s"
  using assms
proof (induction fs arbitrary: st)
  case Nil
  then show ?case by simp
next
  case (Cons f fs)
  show ?case
  proof (cases "f st")
    case (Inl e)
    with Cons.prems(1,3) show ?thesis by simp
  next
    case (Inr st')
    have "I st'" using Cons.prems(2) [of f st st'] Cons.prems(1) Inr by simp
    moreover have "s = st \<or> s \<in> set (exec_trace fs st')"
      using Cons.prems(3) Inr by simp
    ultimately show ?thesis
      using Cons.IH [of st'] Cons.prems(1,2) by (metis list.set_intros(2))
  qed
qed

lemma exec_stmts_invariant:
  assumes "I st" and step: "\<And>f s s'. f \<in> set fs \<Longrightarrow> I s \<Longrightarrow> f s = Inr s' \<Longrightarrow> I s'"
    and "exec_stmts fs st = Inr st'"
  shows "I st'"
  using assms
proof (induction fs arbitrary: st)
  case Nil
  then show ?case by simp
next
  case (Cons f fs)
  from Cons.prems(3) obtain s1 where f: "f st = Inr s1" and rest: "exec_stmts fs s1 = Inr st'"
    by (cases "f st") simp_all
  have "I s1" using Cons.prems(2) [of f st s1] Cons.prems(1) f by simp
  then show ?case
    using Cons.IH [of s1] Cons.prems(2) rest by (metis list.set_intros(2))
qed

lemma run_stmts_split:
  "run_stmts openpty Popen =
     (run_before_pipe openpty @ [stmt_pipe Popen]) @ [stmt_stdin, stmt_wait_callback, stmt_start]"
  by (simp add: run_stmts_def run_before_pipe_def)

lemma before_keeps_callback:
  assumes "f \<in> set (run_before_pipe openpty @ [stmt_pipe Popen])" "f s = Inr s'"
  shows "wait_callback (self s') = wait_callback (self s)"
  using assms
  by (auto simp: run_before_pipe_def stmt_defs split: sum.splits option.splits prod.splits
      if_splits)

lemma before_not_started:
  assumes "\<not> callback_started (self st0)"
    and "st \<in> set (exec_trace (run_before_pipe openpty @ [stmt_pipe Popen]) st0)"
  shows "\<not> callback_started (self st)"
proof (rule exec_trace_invariant [where I = "\<lambda>s. \<not> callback_started (self s)", OF assms(1) _ assms(2)])
  fix f s s'
  assume "f \<in> set (run_before_pipe openpty @ [stmt_pipe Popen])" "f s = Inr s'"
    "\<not> callback_started (self s)"
  then show "\<not> callback_started (self s')"
    using before_keeps_callback [of f openpty Popen s s'] by (simp add: callback_started_def)
qed

lemma before_result:
  assumes "\<not> callback_started (self st0)"
    and "exec_stmts (run_before_pipe openpty @ [stmt_pipe Popen]) st0 = Inr s9"
  shows "\<not> callback_started (self s9) \<and> pipe (self s9) \<noteq> None"
proof
  show "\<not> callback_started (self s9)"
  proof (rule exec_stmts_invariant [where I = "\<lambda>s. \<not> callback_started (self s)", OF assms(1) _ assms(2)])
    fix f s s'
    assume "f \<in> set (run_before_pipe openpty @ [stmt_pipe Popen])" "f s = Inr s'"
      "\<not> callback_started (self s)"
    then show "\<not> callback_started (self s')"
      using before_keeps_callback [of f openpty Popen s s'] by (simp add: callback_started_def)
  qed
next
  from assms(2) obtain s8 where "stmt_pipe Popen s8 = Inr s9"
    by (auto simp: exec_stmts_append split: sum.splits)
  then show "pipe (self s9) \<noteq> None"
    by (auto simp: stmt_pipe_def split: sum.splits)
qed

lemma after_pipe_trace:
  assumes "pipe (self s9) = Some p" "\<not> callback_started (self s9)"
    and "st \<in> set (exec_trace [stmt_stdin, stmt_wait_callback, stmt_start] s9)"
    and "callback_started (self st)"
  shows "pipe (self st) = Some p \<and>
     wait_callback (self st) =
       Some \<lparr>callback = ''_wait_for_end'', callback_time = 250, running = True\<rparr>"
  using assms
  by (auto simp: stmt_stdin_def stmt_wait_callback_def stmt_start_def callback_started_def)

text \<open>
  C8: started on an object whose completion check is not under way, \<^verbatim>\<open>run\<close>
  passes through no state in which the check is under way and \<^verbatim>\<open>self.pipe\<close> is
  missing: whenever the periodic callback has been started, the check finds the process
  handle, and the callback is the one for \<^verbatim>\<open>_wait_for_end\<close> with an interval of 250
  milliseconds. When the pseudo-terminal and the process can be made, \<^verbatim>\<open>run\<close> returns
  with the handle assigned and that callback started.
\<close>

theorem run_sets_pipe_first:
  assumes fresh: "\<not> callback_started (self st0)"
  shows "(\<forall>st \<in> set (exec_trace (run_stmts openpty Popen) st0).
            callback_started (self st) \<longrightarrow>
              (\<exists>p. wait_for_end_pipe (self st) = Inr p) \<and>
              wait_callback (self st) =
                Some \<lparr>callback = ''_wait_for_end'', callback_time = 250, running = True\<rparr>) \<and>
         (\<forall>m s p. openpty = Inr (m, s) \<and>
            Popen (args (self st0))
              ((kwargs (self st0))(''stdout'' \<mapsto> FileObject s, ''stderr'' \<mapsto> FileObject s,
                 ''close_fds'' \<mapsto> BoolVal True)) = Inr p \<longrightarrow>
            (\<exists>st'. AsyncPopenFixed_run openpty Popen st0 = Inr st' \<and>
               pipe (self st') = Some p \<and>
               wait_callback (self st') =
                 Some \<lparr>callback = ''_wait_for_end'', callback_time = 250, running = True\<rparr>))"
proof (rule conjI)
  show "\<forall>st \<in> set (exec_trace (run_stmts openpty Popen) st0).
            callback_started (self st) \<longrightarrow>
              (\<exists>p. wait_for_end_pipe (self st) = Inr p) \<and>
              wait_callback (self st) =
                Some \<lparr>callback = ''_wait_for_end'', callback_time = 250, running = True\<rparr>"
  proof (intro ballI impI)
  fix st
  assume mem: "st \<in> set (exec_trace (run_stmts openpty Popen) st0)"
    and started: "callback_started (self st)"
  let ?pre = "run_before_pipe openpty @ [stmt_pipe Popen]"
  from mem have "st \<in> set (exec_trace ?pre st0) \<or>
      (\<exists>s9. exec_stmts ?pre st0 = Inr s9 \<and>
         st \<in> set (exec_trace [stmt_stdin, stmt_wait_callback, stmt_start] s9))"
    unfolding run_stmts_split exec_trace_append by (auto split: sum.splits)
  then show "(\<exists>p. wait_for_end_pipe (self st) = Inr p) \<and>
      wait_callback (self st) =
        Some \<lparr>callback = ''_wait_for_end'', callback_time = 250, running = True\<rparr>"
  proof
    assume "st \<in> set (exec_trace ?pre st0)"
    from before_not_started [OF fresh this] started show ?thesis by simp
  next
    assume "\<exists>s9. exec_stmts ?pre st0 = Inr s9 \<and>
         st \<in> set (exec_trace [stmt_stdin, stmt_wait_callback, stmt_start] s9)"
    then obtain s9 where s9: "exec_stmts ?pre st0 = Inr s9"
      and tr: "st \<in> set (exec_trace [stmt_stdin, stmt_wait_callback, stmt_start] s9)"
      by blast
    from before_result [OF fresh s9] obtain p where
      p: "pipe (self s9) = Some p" and ns: "\<not> callback_started (self s9)"
      by auto
    from after_pipe_trace [OF p ns tr started] show ?thesis
      by (simp add: wait_for_end_pipe_def)
  qed
  qed
next
  show "\<forall>m s p. openpty = Inr (m, s) \<and>
            Popen (args (self st0))
              ((kwargs (self st0))(''stdout'' \<mapsto> FileObject s, ''stderr'' \<mapsto> FileObject s,
                 ''close_fds'' \<mapsto> BoolVal True)) = Inr p \<longrightarrow>
            (\<exists>st'. AsyncPopenFixed_run openpty Popen st0 = Inr st' \<and>
               pipe (self st') = Some p \<and>
               wait_callback (self st') =
                 Some \<lparr>callback = ''_wait_for_end'', callback_time = 250, running = True\<rparr>)"
  proof (intro allI impI)
  fix m s p
  assume "openpty = Inr (m, s) \<and>
            Popen (args (self st0))
              ((kwargs (self st0))(''stdout'' \<mapsto> FileObject s, ''stderr'' \<mapsto> FileObject s,
                 ''close_fds'' \<mapsto> BoolVal True)) = Inr p"
  then show "\<exists>st'. AsyncPopenFixed_run openpty Popen st0 = Inr st' \<and>
               pipe (self st') = Some p \<and>
               wait_callback (self st') =
                 Some \<lparr>callback = ''_wait_for_end'', callback_time = 250, running = True\<rparr>"
    by (simp add: AsyncPopenFixed_run_def run_stmts_def stmt_defs)
  qed
qed

lemma exec_stmts_in_trace: "exec_stmts fs st = Inr st' \<Longrightarrow> st' \<in> set (exec_trace fs st)"
proof (induction fs arbitrary: st)
  case Nil
  then show ?case by simp
next
  case (Cons f fs)
  then show ?case by (cases "f st") simp_all
qed

theorem run_sets_pipe_first_witness:
  "\<not> callback_started (self fresh_frame) \<and>
   (\<exists>st'. AsyncPopenFixed_run (Inr (3, 4)) example_Popen fresh_frame = Inr st' \<and>
      st' \<in> set (exec_trace (run_stmts (Inr (3, 4)) example_Popen) fresh_frame) \<and>
      callback_started (self st') \<and>
      wait_for_end_pipe (self st') = Inr \<lparr>pid = 4711, popen_stdin = None\<rparr> \<and>
      wait_callback (self st') =
        Some \<lparr>callback = ''_wait_for_end'', callback_time = 250, running = True\<rparr>)"
proof -
  have fresh: "\<not> callback_started (self fresh_frame)"
    by (simp add: callback_started_def fresh_frame_def)
  have po: "example_Popen (args (self fresh_frame))
      ((kwargs (self fresh_frame))(''stdout'' \<mapsto> FileObject 4, ''stderr'' \<mapsto> FileObject 4,
         ''close_fds'' \<mapsto> BoolVal True)) = Inr \<lparr>pid = 4711, popen_stdin = None\<rparr>"
    by (simp add: example_Popen_def)
  note th = run_sets_pipe_first [OF fresh, of "Inr (3, 4)" example_Popen]
  from th po obtain st' where
    run: "AsyncPopenFixed_run (Inr (3, 4)) example_Popen fresh_frame = Inr st'" and
    p: "pipe (self st') = Some \<lparr>pid = 4711, popen_stdin = None\<rparr>" and
    w: "wait_callback (self st') =
        Some \<lparr>callback = ''_wait_for_end'', callback_time = 250, running = True\<rparr>"
    by blast
  have mem: "st' \<in> set (exec_trace (run_stmts (Inr (3, 4)) example_Popen) fresh_frame)"
    using run unfolding AsyncPopenFixed_run_def by (rule exec_stmts_in_trace)
  have started: "callback_started (self st')"
    using w by (simp add: callback_started_def)
  have "wait_for_end_pipe (self st') = Inr \<lparr>pid = 4711, popen_stdin = None\<rparr>"
    using p by (simp add: wait_for_end_pipe_def)
  with fresh run mem started w show ?thesis by blast
qed

section \<open>Startup checks\<close>

lemma required_version:
  "StrictVersion_parse ''0.0.15'' = Inr \<lparr>version = (0, 0, 15), prerelease = None\<rparr>"
  by code_simp

lemma below_required:
  "StrictVersion_cmp v \<lparr>version = (0, 0, 15), prerelease = None\<rparr> < 0 \<longleftrightarrow>
     fst (version v) = 0 \<and> fst (snd (version v)) = 0 \<and>
     (snd (snd (version v)) < 15 \<or> snd (snd (version v)) = 15 \<and> prerelease v \<noteq> None)"
proof -
  obtain a b c where ver: "version v = (a, b, c)" by (cases "version v") auto
  show ?thesis
    by (cases "prerelease v")
       (auto simp: StrictVersion_cmp_def cmp_version_def cmp_def ver Let_def split: if_splits)
qed

lemma find_Some_nonempty:
  "find P wget_lua_paths = Some w \<Longrightarrow> w \<noteq> []"
  by (auto simp: wget_lua_paths_def split: if_splits)

text \<open>
  C10: for a seesaw version string that parses. When the version is below 0.0.15 (a
  smaller number triple, or 0.0.15 with a pre-release tag), loading the module raises the
  exception of the version check. When none of the candidate paths runs and prints the
  required version string, loading raises. And when loading returns a module, the
  version is not below 0.0.15 and \<^verbatim>\<open>WGET_LUA\<close> is a candidate path that runs and
  prints the required version string; only then does a pipeline exist.
\<close>

theorem module_load_refuses:
  assumes parse: "StrictVersion_parse seesaw_version = Inr v"
  shows "(fst (version v) = 0 \<and> fst (snd (version v)) = 0 \<and>
            (snd (snd (version v)) < 15 \<or>
             snd (snd (version v)) = 15 \<and> prerelease v \<noteq> None) \<longrightarrow>
            module_load seesaw_version run_version downloader =
              Inl (Exception ''This pipeline needs seesaw version 0.0.15 or higher.'')) \<and>
         (\<not> list_ex (test_executable run_version [''GNU Wget 1.14.lua.20130523-9a5c''])
              wget_lua_paths \<longrightarrow>
            (\<exists>e. module_load seesaw_version run_version downloader = Inl e)) \<and>
         (\<forall>m. module_load seesaw_version run_version downloader = Inr m \<longrightarrow>
            \<not> (fst (version v) = 0 \<and> fst (snd (version v)) = 0 \<and>
               (snd (snd (version v)) < 15 \<or>
                snd (snd (version v)) = 15 \<and> prerelease v \<noteq> None)) \<and>
            WGET_LUA m \<in> set wget_lua_paths \<and>
            test_executable run_version [''GNU Wget 1.14.lua.20130523-9a5c''] (WGET_LUA m))"
proof -
  let ?below = "fst (version v) = 0 \<and> fst (snd (version v)) = 0 \<and>
     (snd (snd (version v)) < 15 \<or> snd (snd (version v)) = 15 \<and> prerelease v \<noteq> None)"
  let ?usable = "test_executable run_version [''GNU Wget 1.14.lua.20130523-9a5c'']"
  have lt: "StrictVersion_cmp v \<lparr>version = (0, 0, 15), prerelease = None\<rparr> < 0 \<longleftrightarrow> ?below"
    by (rule below_required)
  have 1: "module_load seesaw_version run_version downloader =
      Inl (Exception ''This pipeline needs seesaw version 0.0.15 or higher.'')" if "?below"
    using that lt by (simp add: module_load_def parse required_version)
  have 2: "\<exists>e. module_load seesaw_version run_version downloader = Inl e"
    if "\<not> list_ex ?usable wget_lua_paths"
  proof -
    from that have "find ?usable wget_lua_paths = None"
      by (simp add: find_None_iff list_ex_iff)
    then show ?thesis
      by (simp add: module_load_def parse required_version find_executable_def)
  qed
  have 3: "\<not> ?below \<and> WGET_LUA m \<in> set wget_lua_paths \<and> ?usable (WGET_LUA m)"
    if ok: "module_load seesaw_version run_version downloader = Inr m" for m
  proof -
    have nb: "\<not> ?below" using 1 ok by auto
    with ok lt obtain w where f: "find ?usable wget_lua_paths = Some w" and m: "WGET_LUA m = w"
      by (auto simp: module_load_def parse required_version find_executable_def
          split: option.splits if_splits)
    from f have "w \<in> set wget_lua_paths \<and> ?usable w"
      by (auto simp: find_Some_iff)
    with nb m show ?thesis by simp
  qed
  show ?thesis using 1 2 3 by blast
qed

theorem module_load_refuses_witness:
  "StrictVersion_parse ''0.0.14'' = Inr \<lparr>version = (0, 0, 14), prerelease = None\<rparr> \<and>
   module_load ''0.0.14'' (\<lambda>p. Some ''GNU Wget 1.14.lua.20130523-9a5c built on linux-gnu.'') ''alice'' =
     Inl (Exception ''This pipeline needs seesaw version 0.0.15 or higher.'') \<and>
   StrictVersion_parse ''0.1.8b1'' = Inr \<lparr>version = (0, 1, 8), prerelease = Some (CHR ''b'', 1)\<rparr> \<and>
   \<not> list_ex (test_executable (\<lambda>p. Some ''GNU Wget 1.14 built on linux-gnu.'')
         [''GNU Wget 1.14.lua.20130523-9a5c'']) wget_lua_paths \<and>
   (\<exists>e. module_load ''0.1.8b1'' (\<lambda>p. Some ''GNU Wget 1.14 built on linux-gnu.'') ''alice'' = Inl e) \<and>
   (\<exists>m. module_load ''0.1.8b1''
          (\<lambda>p. if p = ''../wget-lua''
                then Some ''GNU Wget 1.14.lua.20130523-9a5c built on linux-gnu.'' else None) ''alice'' =
        Inr m \<and> WGET_LUA m \<in> set wget_lua_paths)"
proof -
  have p1: "StrictVersion_parse ''0.0.14'' = Inr \<lparr>version = (0, 0, 14), prerelease = None\<rparr>"
    by code_simp
  have p2: "StrictVersion_parse ''0.1.8b1'' =
      Inr \<lparr>version = (0, 1, 8), prerelease = Some (CHR ''b'', 1)\<rparr>"
    by code_simp
  have nu: "\<not> list_ex (test_executable (\<lambda>p. Some ''GNU Wget 1.14 built on linux-gnu.'')
         [''GNU Wget 1.14.lua.20130523-9a5c'']) wget_lua_paths"
    by code_simp
  have a: "module_load ''0.0.14''
      (\<lambda>p. Some ''GNU Wget 1.14.lua.20130523-9a5c built on linux-gnu.'') ''alice'' =
     Inl (Exception ''This pipeline needs seesaw version 0.0.15 or higher.'')"
    using module_load_refuses [OF p1] by simp
  have b: "\<exists>e. module_load ''0.1.8b1'' (\<lambda>p. Some ''GNU Wget 1.14 built on linux-gnu.'') ''alice'' = Inl e"
    using module_load_refuses [OF p2] nu by blast
  define m where "m = \<lparr>WGET_LUA = ''../wget-lua'',
      pipeline = pipeline_tasks ''../wget-lua'' ''alice''\<rparr>"
  have m: "module_load ''0.1.8b1''
          (\<lambda>p. if p = ''../wget-lua''
                then Some ''GNU Wget 1.14.lua.20130523-9a5c built on linux-gnu.'' else None) ''alice'' =
        Inr m"
    unfolding m_def by code_simp
  from module_load_refuses [OF p2] m have "WGET_LUA m \<in> set wget_lua_paths" by blast
  with p1 a p2 nu b m show ?thesis by blast
qed

section \<open>The concurrency gate\<close>

lemma gate_step_capacity: "capacity (gate_step g e) = capacity g"
  by (cases e) (simp_all add: Let_def split: list.splits)

lemma gate_step_bound:
  "inUse g \<le> capacity g \<Longrightarrow> inUse (gate_step g e) \<le> capacity (gate_step g e)"
  by (cases e) (auto simp: Let_def split: list.splits)

lemma gate_run_bound:
  "inUse g \<le> capacity g \<Longrightarrow>
     inUse (foldl gate_step g evs) \<le> capacity (foldl gate_step g evs) \<and>
     capacity (foldl gate_step g evs) = capacity g"
proof (induction evs arbitrary: g)
  case Nil
  then show ?case by simp
next
  case (Cons e evs)
  from Cons.prems have "inUse (gate_step g e) \<le> capacity (gate_step g e)"
    by (rule gate_step_bound)
  from Cons.IH [OF this] show ?case by (simp add: gate_step_capacity)
qed

lemma set_value_bounds:
  "min_value cfg \<le> cur \<and> cur \<le> max_value cfg \<Longrightarrow>
     min_value cfg \<le> set_value cfg cur v \<and> set_value cfg cur v \<le> max_value cfg"
  by (simp add: set_value_def)

lemma foldl_set_value_bounds:
  "min_value cfg \<le> cur \<and> cur \<le> max_value cfg \<Longrightarrow>
     min_value cfg \<le> foldl (set_value cfg) cur vs \<and> foldl (set_value cfg) cur vs \<le> max_value cfg"
proof (induction vs arbitrary: cur)
  case Nil
  then show ?case by simp
next
  case (Cons v vs)
  from Cons.IH [OF set_value_bounds [OF Cons.prems]] show ?case by simp
qed

lemma rsync_threads_default: "int (int_of_digits (default_value rsync_threads)) = 1"
  by (simp add: rsync_threads_def int_of_digits_def)

lemma realize_rsync_threads:
  "1 \<le> realize rsync_threads settings \<and> realize rsync_threads settings \<le> 4"
proof -
  have "min_value rsync_threads \<le> 1 \<and> 1 \<le> max_value rsync_threads"
    by (simp add: rsync_threads_def)
  from foldl_set_value_bounds [OF this, of settings] show ?thesis
    by (simp add: realize_def rsync_threads_default) (simp add: rsync_threads_def)
qed

text \<open>
  C4: whatever requests and releases reach a gate, in whatever order, its \<open>inUse\<close> is
  at most its capacity, and the capacity does not change. The gate around the upload,
  the \<^verbatim>\<open>LimitConcurrent\<close> of the pipeline, takes its capacity from the configuration
  value \<^verbatim>\<open>shared:rsync_threads\<close>: whatever the operator sets, it is a whole number from
  1 to 4, and 1 when the operator has set nothing.
\<close>

theorem gate_bounded:
  "inUse (foldl gate_step (new_gate c) evs) \<le> capacity (foldl gate_step (new_gate c) evs) \<and>
   capacity (foldl gate_step (new_gate c) evs) = c \<and>
   LimitConcurrent rsync_threads
     (UploadWithTracker (''http://tracker.archiveteam.org/'' @ TRACKER_ID) downloader VERSION
        [ItemInterpolation ''%(data_dir)s/%(file_base)s''] (ItemInterpolation ''%(data_dir)s/'')
        [''--recursive'', ''--partial'', ''--partial-dir'', ''.rsync-tmp''])
     \<in> set (pipeline_tasks wget_lua downloader) \<and>
   inUse (foldl gate_step (upload_gate settings) evs) \<le>
     capacity (foldl gate_step (upload_gate settings) evs) \<and>
   int (capacity (foldl gate_step (upload_gate settings) evs)) = realize rsync_threads settings \<and>
   1 \<le> realize rsync_threads settings \<and> realize rsync_threads settings \<le> 4 \<and>
   realize rsync_threads [] = 1"
proof -
  have g: "inUse (foldl gate_step (new_gate k) evs) \<le> capacity (foldl gate_step (new_gate k) evs) \<and>
      capacity (foldl gate_step (new_gate k) evs) = k" for k
    using gate_run_bound [of "new_gate k" evs] by (simp add: new_gate_def)
  have b: "1 \<le> realize rsync_threads settings \<and> realize rsync_threads settings \<le> 4"
    by (rule realize_rsync_threads)
  have d: "realize rsync_threads [] = 1"
    by (simp add: realize_def rsync_threads_default)
  have t: "LimitConcurrent rsync_threads
     (UploadWithTracker (''http://tracker.archiveteam.org/'' @ TRACKER_ID) downloader VERSION
        [ItemInterpolation ''%(data_dir)s/%(file_base)s''] (ItemInterpolation ''%(data_dir)s/'')
        [''--recursive'', ''--partial'', ''--partial-dir'', ''.rsync-tmp''])
     \<in> set (pipeline_tasks wget_lua downloader)"
    by (simp add: pipeline_tasks_def)
  show ?thesis
    using g [of c] g [of "nat (realize rsync_threads settings)"] b d t
    by (simp add: upload_gate_def)
qed

theorem gate_bounded_witness:
  "inUse (foldl gate_step (upload_gate [7, 3, 0])
      [Request 1, Request 2, Request 3, Request 4, Released, Request 5]) = 3 \<and>
   int (capacity (foldl gate_step (upload_gate [7, 3, 0])
      [Request 1, Request 2, Request 3, Request 4, Released, Request 5])) = 3 \<and>
   waiting (foldl gate_step (upload_gate [7, 3, 0])
      [Request 1, Request 2, Request 3, Request 4, Released, Request 5]) = [5] \<and>
   realize rsync_threads [7, 3, 0] = 3"
proof -
  have r: "realize rsync_threads [7, 3, 0] = 3"
    by code_simp
  have i: "inUse (foldl gate_step (upload_gate [7, 3, 0])
      [Request 1, Request 2, Request 3, Request 4, Released, Request 5]) = 3"
    by code_simp
  have w: "waiting (foldl gate_step (upload_gate [7, 3, 0])
      [Request 1, Request 2, Request 3, Request 4, Released, Request 5]) = [5]"
    by code_simp
  from gate_bounded [of 3 "[Request 1, Request 2, Request 3, Request 4, Released, Request 5]"
      "''alice''" "''./wget-lua''" "[7, 3, 0]"]
  have "int (capacity (foldl gate_step (upload_gate [7, 3, 0])
      [Request 1, Request 2, Request 3, Request 4, Released, Request 5])) =
      realize rsync_threads [7, 3, 0]"
    by (elim conjE)
  then have c: "int (capacity (foldl gate_step (upload_gate [7, 3, 0])
      [Request 1, Request 2, Request 3, Request 4, Released, Request 5])) = 3"
    unfolding r .
  from i c w r show ?thesis by (intro conjI)
qed

section \<open>The order of the stages\<close>

lemma pipeline_stages:
  "map stage_of_task (pipeline_tasks wget_lua downloader) =
     [\<lparr>stage_name = ''GetItemFromTracker'', kind = Simple, retryPolicy = no_retry,
       gateName = None\<rparr>,
      \<lparr>stage_name = ''PrepareDirectories'', kind = Simple, retryPolicy = no_retry,
       gateName = None\<rparr>,
      \<lparr>stage_name = ''WgetDownload'', kind = Simple,
       retryPolicy = \<lparr>maxAttempts = 5, acceptableCodes = [0]\<rparr>, gateName = None\<rparr>,
      \<lparr>stage_name = ''PrepareStatsForTracker'', kind = Simple, retryPolicy = no_retry,
       gateName = None\<rparr>,
      \<lparr>stage_name = ''MoveFiles'', kind = Simple, retryPolicy = no_retry, gateName = None\<rparr>,
      \<lparr>stage_name = ''UploadWithTracker'', kind = Gated, retryPolicy = no_retry,
       gateName = Some ''shared:rsync_threads''\<rparr>,
      \<lparr>stage_name = ''SendDoneToTracker'', kind = Simple, retryPolicy = no_retry,
       gateName = None\<rparr>]"
  by (simp add: pipeline_tasks_def rsync_threads_def)

lemma single_attempt:
  "action 1 w = (k, w') \<Longrightarrow>
     attempts action n [0] (Suc 0) 0 w = (k = 0, [Attempt n 1 k], w')"
  by simp

lemma run_simple:
  assumes "act n 1 w = (k, w')"
  shows "run_stage act cond
      \<lparr>stage_name = n, kind = Simple, retryPolicy = no_retry, gateName = None\<rparr> w =
     (k = 0, [Attempt n 1 k], w')"
  using single_attempt [of "act n" w k w' n, OF assms] by (simp add: run_stage_def no_retry_def)

lemma run_gated:
  assumes "act n 1 w = (k, w')"
  shows "run_stage act cond
      \<lparr>stage_name = n, kind = Gated, retryPolicy = no_retry, gateName = Some g\<rparr> w =
     (k = 0, [Acquire g, Attempt n 1 k, Release g], w')"
  using single_attempt [of "act n" w k w' n, OF assms] by (simp add: run_stage_def no_retry_def)

lemma run_download:
  assumes "attempts (act ''WgetDownload'') ''WgetDownload'' [0] 5 0 w = r"
  shows "run_stage act cond
      \<lparr>stage_name = ''WgetDownload'', kind = Simple,
       retryPolicy = \<lparr>maxAttempts = 5, acceptableCodes = [0]\<rparr>, gateName = None\<rparr> w = r"
  using assms by (simp add: run_stage_def)

lemma execute_step:
  assumes "run_stage act cond s w = (ok, evs, w1)"
  shows "execute act cond (s # ss) w =
     (if ok then
        (block (stage_name s, evs, True) @ fst (execute act cond ss w1),
         snd (execute act cond ss w1))
      else (block (stage_name s, evs, False), Failed, w1))"
  using assms by (simp add: block_def split: prod.splits)

lemma execute_Nil: "execute act cond [] w = ([], Succeeded, w)"
  by simp

lemma action_names:
  "pipeline_action c ''GetItemFromTracker'' k w = get_item c w"
  "pipeline_action c ''PrepareDirectories'' k w =
     (case PrepareDirectories_process ''bliptv'' (clock c) (item_of w) (fs_of w) of
        (r, i, f) \<Rightarrow> (code_of r, \<lparr>item_of = i, fs_of = f\<rparr>))"
  "pipeline_action c ''WgetDownload'' = wget c"
  "pipeline_action c ''PrepareStatsForTracker'' k w = prepare_stats c w"
  "pipeline_action c ''MoveFiles'' k w =
     (case MoveFiles_process (item_of w) (fs_of w) of (r, f) \<Rightarrow> (code_of r, w\<lparr>fs_of := f\<rparr>))"
  "pipeline_action c ''UploadWithTracker'' k w = upload c w"
  "pipeline_action c ''SendDoneToTracker'' k w = send_done c w"
  by (simp_all add: pipeline_action_def fun_eq_iff)

text \<open>
  C6: the run of one item, for any collaborators and any initial state, written out. The
  seven stages are claim (GetItemFromTracker), directory preparation, download, stats
  collection, file relocation (MoveFiles), gated upload and completion report, and each
  works on the state that the stage before it left: \<open>w1\<close> to \<open>w7\<close> below. The log
  is made of the blocks of the stages that ran, in this order, each block a \<open>Begin\<close>,
  the stage's own events and its \<open>End\<close>; the stages that ran are the leading ones
  that succeeded and the first that failed, so a stage begins only after the one before
  it has ended in success; the item succeeds exactly when all seven succeeded; and the
  final state is the one left by the last stage that ran.
\<close>

theorem stages_in_order:
  assumes s1: "get_item c w = (k1, w1)"
    and s2: "PrepareDirectories_process ''bliptv'' (clock c) (item_of w1) (fs_of w1) =
        (r2, i2, f2)"
    and s3: "attempts (wget c) ''WgetDownload'' [0] 5 0 \<lparr>item_of = i2, fs_of = f2\<rparr> =
        (ok3, evs3, w3)"
    and s4: "prepare_stats c w3 = (k4, w4)"
    and s5: "MoveFiles_process (item_of w4) (fs_of w4) = (r5, f5)"
    and s6: "upload c (w4\<lparr>fs_of := f5\<rparr>) = (k6, w6)"
    and s7: "send_done c w6 = (k7, w7)"
    and bs: "bs =
       [(''GetItemFromTracker'', [Attempt ''GetItemFromTracker'' 1 k1], k1 = 0),
        (''PrepareDirectories'', [Attempt ''PrepareDirectories'' 1 (code_of r2)], r2 = Return ()),
        (''WgetDownload'', evs3, ok3),
        (''PrepareStatsForTracker'', [Attempt ''PrepareStatsForTracker'' 1 k4], k4 = 0),
        (''MoveFiles'', [Attempt ''MoveFiles'' 1 (code_of r5)], r5 = Return ()),
        (''UploadWithTracker'',
           [Acquire ''shared:rsync_threads'', Attempt ''UploadWithTracker'' 1 k6,
            Release ''shared:rsync_threads''], k6 = 0),
        (''SendDoneToTracker'', [Attempt ''SendDoneToTracker'' 1 k7], k7 = 0)]"
    and ws: "ws = [w1, \<lparr>item_of = i2, fs_of = f2\<rparr>, w3, w4, w4\<lparr>fs_of := f5\<rparr>, w6, w7]"
    and n: "n = length (takeWhile (\<lambda>b. snd (snd b)) bs)"
  shows "run_item c (pipeline_tasks wget_lua downloader) w =
     (concat (map block (take (Suc n) bs)),
      if n = 7 then Succeeded else Failed,
      ws ! min n 6)"
proof -
  let ?act = "pipeline_action c"
  let ?cond = "\<lambda>(n :: string) (w :: world). True"
  have c2: "r2 = Return () \<longleftrightarrow> code_of r2 = 0"
    by (cases r2) (simp_all add: code_of_def)
  have c5: "r5 = Return () \<longleftrightarrow> code_of r5 = 0"
    by (cases r5) (simp_all add: code_of_def)
  have a1: "?act ''GetItemFromTracker'' 1 w = (k1, w1)"
    using s1 by (simp add: action_names)
  have a2: "?act ''PrepareDirectories'' 1 w1 = (code_of r2, \<lparr>item_of = i2, fs_of = f2\<rparr>)"
    using s2 by (simp add: action_names)
  have a3: "attempts (?act ''WgetDownload'') ''WgetDownload'' [0] 5 0
      \<lparr>item_of = i2, fs_of = f2\<rparr> = (ok3, evs3, w3)"
    using s3 by (simp add: action_names)
  have a4: "?act ''PrepareStatsForTracker'' 1 w3 = (k4, w4)"
    using s4 by (simp add: action_names)
  have a5: "?act ''MoveFiles'' 1 w4 = (code_of r5, w4\<lparr>fs_of := f5\<rparr>)"
    using s5 by (simp add: action_names)
  have a6: "?act ''UploadWithTracker'' 1 (w4\<lparr>fs_of := f5\<rparr>) = (k6, w6)"
    using s6 by (simp add: action_names)
  have a7: "?act ''SendDoneToTracker'' 1 w6 = (k7, w7)"
    using s7 by (simp add: action_names)
  note r1 = run_simple [where act = ?act and n = "''GetItemFromTracker''" and cond = ?cond, OF a1]
  note r2 = run_simple [where act = ?act and n = "''PrepareDirectories''" and cond = ?cond, OF a2]
  note r3 = run_download [where act = ?act and cond = ?cond, OF a3]
  note r4 = run_simple [where act = ?act and n = "''PrepareStatsForTracker''" and cond = ?cond, OF a4]
  note r5 = run_simple [where act = ?act and n = "''MoveFiles''" and cond = ?cond, OF a5]
  note r6 = run_gated [where act = ?act and n = "''UploadWithTracker''" and cond = ?cond
      and g = "''shared:rsync_threads''", OF a6]
  note r7 = run_simple [where act = ?act and n = "''SendDoneToTracker''" and cond = ?cond, OF a7]
  note e1 = execute_step [OF r1]
  note e2 = execute_step [OF r2]
  note e3 = execute_step [OF r3]
  note e4 = execute_step [OF r4]
  note e5 = execute_step [OF r5]
  note e6 = execute_step [OF r6]
  note e7 = execute_step [OF r7]
  show ?thesis
    unfolding run_item_def pipeline_stages n bs ws
    by (simp add: e1 e2 e3 e4 e5 e6 e7 c2 [symmetric] c5 [symmetric] execute_Nil
        del: execute.simps)
qed

theorem stages_in_order_witness:
  "fst (run_item flaky_collaborators (pipeline_tasks ''./wget-lua'' ''alice'') example_world) =
     [Begin ''GetItemFromTracker'', Attempt ''GetItemFromTracker'' 1 0,
      End ''GetItemFromTracker'' True,
      Begin ''PrepareDirectories'', Attempt ''PrepareDirectories'' 1 0,
      End ''PrepareDirectories'' True,
      Begin ''WgetDownload'', Attempt ''WgetDownload'' 1 1, Attempt ''WgetDownload'' 2 1,
      Attempt ''WgetDownload'' 3 1, Attempt ''WgetDownload'' 4 1, Attempt ''WgetDownload'' 5 0,
      End ''WgetDownload'' True,
      Begin ''PrepareStatsForTracker'', Attempt ''PrepareStatsForTracker'' 1 0,
      End ''PrepareStatsForTracker'' True,
      Begin ''MoveFiles'', Attempt ''MoveFiles'' 1 0, End ''MoveFiles'' True,
      Begin ''UploadWithTracker'', Acquire ''shared:rsync_threads'',
      Attempt ''UploadWithTracker'' 1 0, Release ''shared:rsync_threads'',
      End ''UploadWithTracker'' True,
      Begin ''SendDoneToTracker'', Attempt ''SendDoneToTracker'' 1 0,
      End ''SendDoneToTracker'' True] \<and>
   fst (snd (run_item flaky_collaborators (pipeline_tasks ''./wget-lua'' ''alice'')
     example_world)) = Succeeded \<and>
   lookup (fs_of (snd (snd (run_item flaky_collaborators (pipeline_tasks ''./wget-lua'' ''alice'')
     example_world)))) [''data'', ''bliptv-20131011-120000-ep-1.flv''] = Some (File ''video'') \<and>
   lookup (fs_of (snd (snd (run_item flaky_collaborators (pipeline_tasks ''./wget-lua'' ''alice'')
     example_world)))) [''data'', ''ep-1.flv''] = None"
proof -
  define P where "P = PrepareDirectories_process ''bliptv'' example_time example_item []"
  define w2 where "w2 = \<lparr>item_of = fst (snd P), fs_of = snd (snd P)\<rparr>"
  define w3 where "w3 = w2\<lparr>fs_of :=
      fs_put [''data'', ''ep-1.flv'', ''bliptv-20131011-120000-ep-1.flv''] (File ''video'')
        (snd (snd P))\<rparr>"
  define M where "M = MoveFiles_process (fst (snd P))
      (fs_put [''data'', ''ep-1.flv'', ''bliptv-20131011-120000-ep-1.flv''] (File ''video'')
        (snd (snd P)))"
  have p: "fst P = Return ()" unfolding P_def by code_simp
  have m: "fst M = Return ()" unfolding M_def P_def by code_simp
  have l1: "lookup (snd M) [''data'', ''bliptv-20131011-120000-ep-1.flv''] = Some (File ''video'')"
    unfolding M_def P_def by code_simp
  have l2: "lookup (snd M) [''data'', ''ep-1.flv''] = None"
    unfolding M_def P_def by code_simp
  have s1: "get_item flaky_collaborators example_world = (0, example_world)"
    by (simp add: flaky_collaborators_def)
  have s2: "PrepareDirectories_process ''bliptv'' (clock flaky_collaborators)
      (item_of example_world) (fs_of example_world) = (Return (), fst (snd P), snd (snd P))"
    using p unfolding P_def
    by (simp add: flaky_collaborators_def example_world_def prod_eq_iff)
  have s3: "attempts (wget flaky_collaborators) ''WgetDownload'' [0] 5 0
      \<lparr>item_of = fst (snd P), fs_of = snd (snd P)\<rparr> =
     (True, [Attempt ''WgetDownload'' 1 1, Attempt ''WgetDownload'' 2 1,
       Attempt ''WgetDownload'' 3 1, Attempt ''WgetDownload'' 4 1, Attempt ''WgetDownload'' 5 0],
      w3)"
    by (simp add: flaky_collaborators_def eval_nat_numeral w2_def w3_def)
  have s4: "prepare_stats flaky_collaborators w3 = (0, w3)"
    by (simp add: flaky_collaborators_def)
  have s5: "MoveFiles_process (item_of w3) (fs_of w3) = (Return (), snd M)"
    using m unfolding M_def w3_def w2_def by (simp add: prod_eq_iff)
  have s6: "upload flaky_collaborators (w3\<lparr>fs_of := snd M\<rparr>) = (0, w3\<lparr>fs_of := snd M\<rparr>)"
    by (simp add: flaky_collaborators_def)
  have s7: "send_done flaky_collaborators (w3\<lparr>fs_of := snd M\<rparr>) = (0, w3\<lparr>fs_of := snd M\<rparr>)"
    by (simp add: flaky_collaborators_def)
  from stages_in_order [OF s1 s2 s3 s4 s5 s6 s7 refl refl refl, of "''./wget-lua''" "''alice''"]
  have "run_item flaky_collaborators (pipeline_tasks ''./wget-lua'' ''alice'') example_world =
     ([Begin ''GetItemFromTracker'', Attempt ''GetItemFromTracker'' 1 0,
      End ''GetItemFromTracker'' True,
      Begin ''PrepareDirectories'', Attempt ''PrepareDirectories'' 1 0,
      End ''PrepareDirectories'' True,
      Begin ''WgetDownload'', Attempt ''WgetDownload'' 1 1, Attempt ''WgetDownload'' 2 1,
      Attempt ''WgetDownload'' 3 1, Attempt ''WgetDownload'' 4 1, Attempt ''WgetDownload'' 5 0,
      End ''WgetDownload'' True,
      Begin ''PrepareStatsForTracker'', Attempt ''PrepareStatsForTracker'' 1 0,
      End ''PrepareStatsForTracker'' True,
      Begin ''MoveFiles'', Attempt ''MoveFiles'' 1 0, End ''MoveFiles'' True,
      Begin ''UploadWithTracker'', Acquire ''shared:rsync_threads'',
      Attempt ''UploadWithTracker'' 1 0, Release ''shared:rsync_threads'',
      End ''UploadWithTracker'' True,
      Begin ''SendDoneToTracker'', Attempt ''SendDoneToTracker'' 1 0,
      End ''SendDoneToTracker'' True], Succeeded, w3\<lparr>fs_of := snd M\<rparr>)"
    by (simp add: block_def code_of_def)
  then show ?thesis using l1 l2 by simp
qed

section \<open>Retries of the download stage\<close>

lemma download_stage:
  "stage_of_task (pipeline_tasks wget_lua downloader ! 2) =
     \<lparr>stage_name = ''WgetDownload'', kind = Simple,
      retryPolicy = \<lparr>maxAttempts = 5, acceptableCodes = [0]\<rparr>, gateName = None\<rparr>"
  by (simp add: pipeline_tasks_def)

lemma run_download_stage:
  "run_stage act cond (stage_of_task (pipeline_tasks wget_lua downloader ! 2)) w =
     attempts (act ''WgetDownload'') ''WgetDownload'' [0] 5 0 w"
  unfolding download_stage by (simp add: run_stage_def Let_def)

lemma download_stage_first:
  "map stage_of_task (drop 2 (pipeline_tasks wget_lua downloader)) =
     stage_of_task (pipeline_tasks wget_lua downloader ! 2) #
     map stage_of_task (drop 3 (pipeline_tasks wget_lua downloader))"
  by (simp add: pipeline_tasks_def)

lemma attempts_five:
  assumes a1: "action 1 w = (c1, w1)"
    and a2: "action 2 w1 = (c2, w2)"
    and a3: "action 3 w2 = (c3, w3)"
    and a4: "action 4 w3 = (c4, w4)"
    and a5: "action 5 w4 = (c5, w5)"
    and bad: "c1 \<noteq> 0" "c2 \<noteq> 0" "c3 \<noteq> 0" "c4 \<noteq> 0"
  shows "attempts action n [0] 5 0 w =
     (c5 = 0, [Attempt n 1 c1, Attempt n 2 c2, Attempt n 3 c3, Attempt n 4 c4, Attempt n 5 c5],
      w5)"
proof -
  have n: "(5 :: nat) = Suc (Suc (Suc (Suc (Suc 0))))" "(4 :: nat) = Suc (Suc (Suc (Suc 0)))"
    "(3 :: nat) = Suc (Suc (Suc 0))" "(2 :: nat) = Suc (Suc 0)"
    by simp_all
  have 5: "attempts action n [0] (Suc 0) (Suc (Suc (Suc (Suc 0)))) w4 =
      (c5 = 0, [Attempt n 5 c5], w5)"
    using a5 by (simp add: n)
  have 4: "attempts action n [0] (Suc (Suc 0)) (Suc (Suc (Suc 0))) w3 =
      (c5 = 0, [Attempt n 4 c4, Attempt n 5 c5], w5)"
    using a4 bad(4) 5 by (simp add: n)
  have 3: "attempts action n [0] (Suc (Suc (Suc 0))) (Suc (Suc 0)) w2 =
      (c5 = 0, [Attempt n 3 c3, Attempt n 4 c4, Attempt n 5 c5], w5)"
    using a3 bad(3) 4 by (simp add: n)
  have 2: "attempts action n [0] (Suc (Suc (Suc (Suc 0)))) (Suc 0) w1 =
      (c5 = 0, [Attempt n 2 c2, Attempt n 3 c3, Attempt n 4 c4, Attempt n 5 c5], w5)"
    using a2 bad(2) 3 by (simp add: n)
  have "attempts action n [0] (Suc (Suc (Suc (Suc (Suc 0))))) 0 w =
      (c5 = 0, [Attempt n 1 c1, Attempt n 2 c2, Attempt n 3 c3, Attempt n 4 c4, Attempt n 5 c5],
       w5)"
    using a1 bad(1) 2 by simp
  then show ?thesis by (simp only: n)
qed

text \<open>
  C1: the download stage of the pipeline has at most 5 attempts and accepts code 0
  only. Along a run in which the action of the stage is invoked once per attempt, each
  time in the state the attempt before it left, and returns a non-zero code at the
  attempts 1 to 4: the stage ends after exactly the attempts 1 to 5, in the state the fifth
  attempt left, and it succeeds exactly when the fifth code is 0. When the fifth code is
  non-zero as well, the item is Failed, and the log ends with the failed stage: no sixth
  attempt is made and no later stage begins.
\<close>

theorem download_retries:
  assumes a1: "act ''WgetDownload'' 1 w = (c1, w1)"
    and a2: "act ''WgetDownload'' 2 w1 = (c2, w2)"
    and a3: "act ''WgetDownload'' 3 w2 = (c3, w3)"
    and a4: "act ''WgetDownload'' 4 w3 = (c4, w4)"
    and a5: "act ''WgetDownload'' 5 w4 = (c5, w5)"
    and bad: "c1 \<noteq> 0" "c2 \<noteq> 0" "c3 \<noteq> 0" "c4 \<noteq> 0"
  shows "maxAttempts (retryPolicy (stage_of_task (pipeline_tasks wget_lua downloader ! 2))) = 5 \<and>
     acceptableCodes (retryPolicy (stage_of_task (pipeline_tasks wget_lua downloader ! 2))) = [0] \<and>
     run_stage act cond (stage_of_task (pipeline_tasks wget_lua downloader ! 2)) w =
       (c5 = 0,
        [Attempt ''WgetDownload'' 1 c1, Attempt ''WgetDownload'' 2 c2,
         Attempt ''WgetDownload'' 3 c3, Attempt ''WgetDownload'' 4 c4,
         Attempt ''WgetDownload'' 5 c5],
        w5) \<and>
     (c5 \<noteq> 0 \<longrightarrow>
        execute act cond (map stage_of_task (drop 2 (pipeline_tasks wget_lua downloader))) w =
          ([Begin ''WgetDownload'',
            Attempt ''WgetDownload'' 1 c1, Attempt ''WgetDownload'' 2 c2,
            Attempt ''WgetDownload'' 3 c3, Attempt ''WgetDownload'' 4 c4,
            Attempt ''WgetDownload'' 5 c5,
            End ''WgetDownload'' False],
           Failed, w5))"
proof -
  let ?dl = "stage_of_task (pipeline_tasks wget_lua downloader ! 2)"
  have rs: "run_stage act cond ?dl w =
       (c5 = 0,
        [Attempt ''WgetDownload'' 1 c1, Attempt ''WgetDownload'' 2 c2,
         Attempt ''WgetDownload'' 3 c3, Attempt ''WgetDownload'' 4 c4,
         Attempt ''WgetDownload'' 5 c5],
        w5)"
    unfolding run_download_stage using assms by (rule attempts_five)
  have nm: "stage_name ?dl = ''WgetDownload''"
    unfolding download_stage by simp
  have ex: "execute act cond (map stage_of_task (drop 2 (pipeline_tasks wget_lua downloader))) w =
          ([Begin ''WgetDownload'',
            Attempt ''WgetDownload'' 1 c1, Attempt ''WgetDownload'' 2 c2,
            Attempt ''WgetDownload'' 3 c3, Attempt ''WgetDownload'' 4 c4,
            Attempt ''WgetDownload'' 5 c5,
            End ''WgetDownload'' False],
           Failed, w5)" if "c5 \<noteq> 0"
    unfolding download_stage_first using rs nm that by simp
  have 1: "maxAttempts (retryPolicy ?dl) = 5" unfolding download_stage by simp
  have 2: "acceptableCodes (retryPolicy ?dl) = [0]" unfolding download_stage by simp
  from 1 2 rs ex show ?thesis by simp
qed

theorem download_retries_witness:
  "run_stage (\<lambda>n k w. (if w < (4 :: nat) then 1 else 0, Suc w)) (\<lambda>n w. True)
      (stage_of_task (pipeline_tasks ''./wget-lua'' ''alice'' ! 2)) 0 =
     (True,
      [Attempt ''WgetDownload'' 1 1, Attempt ''WgetDownload'' 2 1,
       Attempt ''WgetDownload'' 3 1, Attempt ''WgetDownload'' 4 1,
       Attempt ''WgetDownload'' 5 0],
      5) \<and>
   execute (\<lambda>n k w. (8, Suc w)) (\<lambda>n w. True)
      (map stage_of_task (drop 2 (pipeline_tasks ''./wget-lua'' ''alice''))) (0 :: nat) =
     ([Begin ''WgetDownload'',
       Attempt ''WgetDownload'' 1 8, Attempt ''WgetDownload'' 2 8,
       Attempt ''WgetDownload'' 3 8, Attempt ''WgetDownload'' 4 8,
       Attempt ''WgetDownload'' 5 8,
       End ''WgetDownload'' False],
      Failed, 5)"
proof -
  note t1 = download_retries [of "\<lambda>n k w. (if w < (4 :: nat) then 1 else 0, Suc w)"
      0 1 1 1 2 1 3 1 4 0 5 "''./wget-lua''" "''alice''" "\<lambda>n w. True"]
  note t2 = download_retries [of "\<lambda>n k w. (8, Suc w)"
      "0 :: nat" 8 1 8 2 8 3 8 4 8 5 "''./wget-lua''" "''alice''" "\<lambda>n w. True"]
  have 1: "run_stage (\<lambda>n k w. (if w < (4 :: nat) then 1 else 0, Suc w)) (\<lambda>n w. True)
      (stage_of_task (pipeline_tasks ''./wget-lua'' ''alice'' ! 2)) 0 =
     (True,
      [Attempt ''WgetDownload'' 1 1, Attempt ''WgetDownload'' 2 1,
       Attempt ''WgetDownload'' 3 1, Attempt ''WgetDownload'' 4 1,
       Attempt ''WgetDownload'' 5 0],
      5)"
    using t1 by simp
  have 2: "execute (\<lambda>n k w. (8, Suc w)) (\<lambda>n w. True)
      (map stage_of_task (drop 2 (pipeline_tasks ''./wget-lua'' ''alice''))) (0 :: nat) =
     ([Begin ''WgetDownload'',
       Attempt ''WgetDownload'' 1 8, Attempt ''WgetDownload'' 2 8,
       Attempt ''WgetDownload'' 3 8, Attempt ''WgetDownload'' 4 8,
       Attempt ''WgetDownload'' 5 8,
       End ''WgetDownload'' False],
      Failed, 5)"
    using t2 by simp
  from 1 2 show ?thesis by (rule conjI)
qed

end
